theory Spec2Isabelle
  imports Main "HOL-Library.AList"
begin

section \<open>Syntax trees\<close>

text \<open>
  Both scripts work on the trees that Python's \<open>ast.parse\<close> returns. Only the node
  classes the scripts distinguish are kept apart; every other class is \<open>Other\<close>, with
  its child nodes in the order of the class's fields (the order in which
  \<open>generic_visit\<close> and \<open>ast.iter_child_nodes\<close> see them).

  \<^item> \<open>Name id\<close>: an identifier.
  \<^item> \<open>Attribute value attr\<close>: \<open>value.attr\<close>.
  \<^item> \<open>Call func args\<close>: a call; \<open>args\<close> holds the positional arguments followed by
    the keyword arguments.
  \<^item> \<open>Import names\<close>: the \<open>alias.name\<close> of every alias of an \<open>import\<close> statement.
  \<^item> \<open>ImportFrom module names\<close>: \<open>from module import names\<close>; \<open>module\<close> is \<open>None\<close>
    for \<open>from . import x\<close>.
  \<^item> \<open>FunctionDef name children\<close>: a \<open>def\<close>; the children are the argument
    defaults and annotations, the body, the decorators and the return annotation.
  \<^item> \<open>ClassDef name pre body post\<close>: a class; \<open>pre\<close> are the bases and keywords,
    \<open>body\<close> is \<open>node.body\<close>, \<open>post\<close> the decorators.
  \<^item> \<open>Other children\<close>: any other node (module, statement, expression, \<open>async def\<close>).

  Leaf nodes without any effect in either script (expression contexts, the alias nodes
  of an import) are left out.
\<close>

datatype node =
    Name string
  | Attribute node string
  | Call node "node list"
  | Import "string list"
  | ImportFrom "string option" "string list"
  | FunctionDef string "node list"
  | ClassDef string "node list" "node list" "node list"
  | Other "node list"

fun iter_child_nodes :: "node \<Rightarrow> node list" where
  "iter_child_nodes (Name ident) = []"
| "iter_child_nodes (Attribute v attr) = [v]"
| "iter_child_nodes (Call func args) = func # args"
| "iter_child_nodes (Import names) = []"
| "iter_child_nodes (ImportFrom module names) = []"
| "iter_child_nodes (FunctionDef name children) = children"
| "iter_child_nodes (ClassDef name pre body post) = pre @ body @ post"
| "iter_child_nodes (Other children) = children"

text \<open>
  \<open>ast.walk\<close>: breadth first, from a queue.
  \<^verbatim>\<open>
  todo = deque([node])
  while todo:
      node = todo.popleft()
      todo.extend(iter_child_nodes(node))
      yield node
  \<close>
\<close>

lemma size_list_iter_child_nodes: "size_list size (iter_child_nodes n) < Suc (size n)"
  by (cases n) simp_all

function walk_queue :: "node list \<Rightarrow> node list" where
  "walk_queue [] = []"
| "walk_queue (n # todo) = n # walk_queue (todo @ iter_child_nodes n)"
  by pat_completeness auto
termination
proof (relation "measure (size_list size)")
  show "wf (measure (size_list size))" by simp
next
  fix n :: node and todo :: "node list"
  show "(todo @ iter_child_nodes n, n # todo) \<in> measure (size_list size)"
    using size_list_iter_child_nodes [of n] by simp
qed

definition walk :: "node \<Rightarrow> node list" where
  "walk tree = walk_queue [tree]"

section \<open>The host environment\<close>

text \<open>
  What the scripts take from their environment is a parameter of the model:
  \<^item> \<open>abspath\<close>: \<open>os.path.abspath\<close>, from a path to its absolute path;
  \<^item> \<open>ast_parse\<close>: reading the file at a path and parsing its text
    (\<open>open\<close>, \<open>read\<close>, \<open>ast.parse\<close>), which raises or returns the tree;
  \<^item> \<open>find_spec\<close>: \<open>importlib.util.find_spec\<close>, which raises or returns \<open>None\<close> or
    a module spec;
  \<^item> \<open>py_files\<close>: the paths \<open>os.walk\<close> lists;
  \<^item> \<open>recursion_limit\<close>: how many nested calls of \<open>NodeVisitor.visit\<close> the
    interpreter's stack has room for when \<open>parse_file\<close> starts a traversal (the
    interpreter's recursion limit, counted in levels of the tree).
  An exception is a value of type \<open>error\<close>, and a function that may raise returns
  \<open>error + 'a\<close>.
\<close>

datatype error =
    SyntaxError string
  | RecursionError
  | ModuleNotFoundError
  | OtherException string

datatype module_spec = ModuleSpec (origin: "string option")

type_synonym table = "string \<rightharpoonup> string"

section \<open>Strings and sets\<close>

text \<open>\<open>sep.join(parts)\<close>.\<close>

fun join :: "string \<Rightarrow> string list \<Rightarrow> string" where
  "join sep [] = []"
| "join sep [p] = p"
| "join sep (p # q # ps) = p @ sep @ join sep (q # ps)"

text \<open>\<open>s.endswith(suffix)\<close>.\<close>

definition endswith :: "string \<Rightarrow> string \<Rightarrow> bool" where
  "endswith s suffix \<longleftrightarrow>
     length suffix \<le> length s \<and> drop (length s - length suffix) s = suffix"

text \<open>\<open>str(n)\<close> for an integer.\<close>

fun str_nat :: "nat \<Rightarrow> string" where
  "str_nat n =
     (if n < 10 then [''0123456789'' ! n]
      else str_nat (n div 10) @ [''0123456789'' ! (n mod 10)])"

declare str_nat.simps [simp del]

definition str :: "int \<Rightarrow> string" where
  "str i = (if i < 0 then ''-'' @ str_nat (nat (- i)) else str_nat (nat i))"

text \<open>
  A Python \<open>set\<close> is a list without duplicates: \<open>set_add\<close> is \<open>s.add(x)\<close>. Python
  leaves the iteration order of a set open; the model iterates in insertion order.
\<close>

definition set_add :: "'a \<Rightarrow> 'a list \<Rightarrow> 'a list" where
  "set_add x s = (if x \<in> set s then s else s @ [x])"

section \<open>The visitor\<close>

text \<open>
  The fields of \<open>ExecutionFlowVisitor\<close>. The sequenced script
  (\<open>Execution_diagram_iteration.py\<close>) adds \<open>calls_with_sequence\<close>.
\<close>

record visitor =
  filename :: string
  func_to_file :: table
  imports_set :: "(string \<times> string) list"
  function_calls :: "(string \<times> string) list"
  outputs :: "string list"
  classes :: "string list"
  functions_set :: "string list"
  current_class :: "string option"
  current_function :: "string option"

record seq_visitor = visitor +
  calls_with_sequence :: "(int \<times> string \<times> string) list"

definition ExecutionFlowVisitor :: "(string \<Rightarrow> string) \<Rightarrow> string \<Rightarrow> table \<Rightarrow> visitor" where
  "ExecutionFlowVisitor abspath file_path ftf =
     \<lparr>filename = abspath file_path, func_to_file = ftf, imports_set = [],
      function_calls = [], outputs = [], classes = [], functions_set = [],
      current_class = None, current_function = None\<rparr>"

definition ExecutionFlowVisitor_seq :: "(string \<Rightarrow> string) \<Rightarrow> string \<Rightarrow> table \<Rightarrow> seq_visitor" where
  "ExecutionFlowVisitor_seq abspath file_path ftf =
     \<lparr>filename = abspath file_path, func_to_file = ftf, imports_set = [],
      function_calls = [], outputs = [], classes = [], functions_set = [],
      current_class = None, current_function = None, calls_with_sequence = []\<rparr>"

text \<open>The loops of \<open>visit_Import\<close> and \<open>visit_ImportFrom\<close>, before \<open>generic_visit\<close>.\<close>

definition visit_Import :: "string list \<Rightarrow> 'a visitor_scheme \<Rightarrow> 'a visitor_scheme" where
  "visit_Import names st =
     st\<lparr>imports_set := foldl (\<lambda>s module_name. set_add (filename st, module_name) s)
                           (imports_set st) names\<rparr>"

definition visit_ImportFrom ::
  "string option \<Rightarrow> string list \<Rightarrow> 'a visitor_scheme \<Rightarrow> 'a visitor_scheme" where
  "visit_ImportFrom module names st =
     st\<lparr>imports_set :=
          foldl (\<lambda>s alias_name.
                   set_add (filename st,
                            (case module of
                               None \<Rightarrow> alias_name
                             | Some m \<Rightarrow> if m = [] then alias_name else m @ ''.'' @ alias_name)) s)
                (imports_set st) names\<rparr>"

text \<open>
  \<open>get_attribute_name\<close>: the \<open>while\<close> loop peels attributes off, inserting each
  \<open>attr\<close> at the front of \<open>parts\<close>; a \<open>Name\<close> at the base is inserted last.
\<close>

fun attribute_loop :: "node \<Rightarrow> string list \<Rightarrow> node \<times> string list" where
  "attribute_loop (Attribute v attr) parts = attribute_loop v (attr # parts)"
| "attribute_loop n parts = (n, parts)"

definition get_attribute_name :: "node \<Rightarrow> string" where
  "get_attribute_name n =
     (case attribute_loop n [] of
        (Name ident, parts) \<Rightarrow> join ''.'' (ident # parts)
      | (_, parts) \<Rightarrow> join ''.'' parts)"

text \<open>\<open>get_func_name\<close> of a call whose \<open>node.func\<close> is \<open>func\<close>.\<close>

definition get_func_name :: "node \<Rightarrow> string option" where
  "get_func_name func =
     (case func of
        Name ident \<Rightarrow> Some ident
      | Attribute v attr \<Rightarrow> Some (get_attribute_name func)
      | _ \<Rightarrow> None)"

definition find_callee_file :: "'a visitor_scheme \<Rightarrow> string \<Rightarrow> string option" where
  "find_callee_file st func_name = func_to_file st func_name"

definition output_functions :: "string list" where
  "output_functions = [''print'', ''logging.info'', ''logging.debug'', ''logging.error'']"

definition record_output :: "string \<Rightarrow> 'a visitor_scheme \<Rightarrow> 'a visitor_scheme" where
  "record_output func_name st =
     (if func_name \<in> set output_functions
      then st\<lparr>outputs := set_add func_name (outputs st)\<rparr> else st)"

text \<open>
  \<open>visit_Call\<close> of \<open>Execution_diagram.py\<close>, before its \<open>generic_visit\<close>. An empty
  string and \<open>None\<close> are both false in \<open>if func_name\<close> and \<open>if callee_file and ...\<close>.
\<close>

definition visit_Call :: "node \<Rightarrow> visitor \<Rightarrow> visitor" where
  "visit_Call func st =
     (case get_func_name func of
        None \<Rightarrow> st
      | Some func_name \<Rightarrow>
          if func_name = [] then st
          else
            let st1 =
              (case find_callee_file st func_name of
                 None \<Rightarrow> st
               | Some callee_file \<Rightarrow>
                   if callee_file \<noteq> [] \<and> callee_file \<noteq> filename st
                   then st\<lparr>function_calls :=
                             set_add (filename st, callee_file) (function_calls st)\<rparr>
                   else st)
            in record_output func_name st1)"

text \<open>
  \<open>NodeVisitor.visit\<close> dispatches on the node's class; a class without a
  \<open>visit_\<close> method gets \<open>generic_visit\<close>, which visits the children in order. The
  traversal is recursive in Python: \<open>visit\<close> of a child runs inside \<open>visit\<close> of its
  parent. The first argument is the number of nested calls of \<open>visit\<close> the stack still
  has room for; where it is used up the interpreter raises \<open>RecursionError\<close>, which
  neither script catches. A \<open>Name\<close> and an import statement have leaf children that the
  datatype leaves out (the expression context, the aliases), so they take two levels.
\<close>

fun visit :: "nat \<Rightarrow> node \<Rightarrow> visitor \<Rightarrow> error + visitor"
  and generic_visit :: "nat \<Rightarrow> node list \<Rightarrow> visitor \<Rightarrow> error + visitor" where
  "visit d (Name ident) st = (if d < 2 then Inl RecursionError else Inr st)"
| "visit d (Attribute v attr) st =
     (if d = 0 then Inl RecursionError else visit (d - 1) v st)"
| "visit d (Call func args) st =
     (if d = 0 then Inl RecursionError
      else case visit (d - 1) func (visit_Call func st) of
             Inl e \<Rightarrow> Inl e
           | Inr st1 \<Rightarrow> generic_visit (d - 1) args st1)"
| "visit d (Import names) st =
     (if d < 2 then Inl RecursionError else Inr (visit_Import names st))"
| "visit d (ImportFrom module names) st =
     (if d < 2 then Inl RecursionError else Inr (visit_ImportFrom module names st))"
| "visit d (FunctionDef name children) st =
     (if d = 0 then Inl RecursionError
      else generic_visit (d - 1) children
             (if current_class st = None
              then st\<lparr>functions_set := set_add name (functions_set st)\<rparr> else st))"
| "visit d (ClassDef name pre body post) st =
     (if d = 0 then Inl RecursionError
      else case generic_visit (d - 1) pre
                  (st\<lparr>classes := set_add name (classes st), current_class := Some name\<rparr>) of
             Inl e \<Rightarrow> Inl e
           | Inr st1 \<Rightarrow>
               (case generic_visit (d - 1) body st1 of
                  Inl e \<Rightarrow> Inl e
                | Inr st2 \<Rightarrow>
                    (case generic_visit (d - 1) post st2 of
                       Inl e \<Rightarrow> Inl e
                     | Inr st3 \<Rightarrow> Inr (st3\<lparr>current_class := None\<rparr>))))"
| "visit d (Other children) st =
     (if d = 0 then Inl RecursionError else generic_visit (d - 1) children st)"
| "generic_visit d [] st = Inr st"
| "generic_visit d (n # ns) st =
     (case visit d n st of Inl e \<Rightarrow> Inl e | Inr st' \<Rightarrow> generic_visit d ns st')"

text \<open>
  \<open>visit_Call\<close> of \<open>Execution_diagram_iteration.py\<close>: the state is the global
  \<open>call_sequence_counter\<close> and the visitor.
\<close>

definition visit_Call_seq :: "node \<Rightarrow> int \<times> seq_visitor \<Rightarrow> int \<times> seq_visitor" where
  "visit_Call_seq func cs =
     (case cs of (call_sequence_counter, st) \<Rightarrow>
       (case get_func_name func of
          None \<Rightarrow> (call_sequence_counter, st)
        | Some func_name \<Rightarrow>
            if func_name = [] then (call_sequence_counter, st)
            else
              let cs1 =
                (case find_callee_file st func_name of
                   None \<Rightarrow> (call_sequence_counter, st)
                 | Some callee_file \<Rightarrow>
                     if callee_file \<noteq> [] \<and> callee_file \<noteq> filename st
                     then (call_sequence_counter + 1,
                           st\<lparr>calls_with_sequence := calls_with_sequence st @
                                [(call_sequence_counter + 1, filename st, callee_file)]\<rparr>)
                     else (call_sequence_counter, st))
              in (fst cs1, record_output func_name (snd cs1))))"

fun visit_seq :: "nat \<Rightarrow> node \<Rightarrow> int \<times> seq_visitor \<Rightarrow> error + int \<times> seq_visitor"
  and generic_visit_seq ::
    "nat \<Rightarrow> node list \<Rightarrow> int \<times> seq_visitor \<Rightarrow> error + int \<times> seq_visitor" where
  "visit_seq d (Name ident) cs = (if d < 2 then Inl RecursionError else Inr cs)"
| "visit_seq d (Attribute v attr) cs =
     (if d = 0 then Inl RecursionError else visit_seq (d - 1) v cs)"
| "visit_seq d (Call func args) cs =
     (if d = 0 then Inl RecursionError
      else case visit_seq (d - 1) func (visit_Call_seq func cs) of
             Inl e \<Rightarrow> Inl e
           | Inr cs1 \<Rightarrow> generic_visit_seq (d - 1) args cs1)"
| "visit_seq d (Import names) cs =
     (if d < 2 then Inl RecursionError else Inr (fst cs, visit_Import names (snd cs)))"
| "visit_seq d (ImportFrom module names) cs =
     (if d < 2 then Inl RecursionError
      else Inr (fst cs, visit_ImportFrom module names (snd cs)))"
| "visit_seq d (FunctionDef name children) cs =
     (if d = 0 then Inl RecursionError
      else generic_visit_seq (d - 1) children
             (fst cs, if current_class (snd cs) = None
                      then (snd cs)\<lparr>functions_set := set_add name (functions_set (snd cs))\<rparr>
                      else snd cs))"
| "visit_seq d (ClassDef name pre body post) cs =
     (if d = 0 then Inl RecursionError
      else case generic_visit_seq (d - 1) pre
                  (fst cs, (snd cs)\<lparr>classes := set_add name (classes (snd cs)),
                                     current_class := Some name\<rparr>) of
             Inl e \<Rightarrow> Inl e
           | Inr cs1 \<Rightarrow>
               (case generic_visit_seq (d - 1) body cs1 of
                  Inl e \<Rightarrow> Inl e
                | Inr cs2 \<Rightarrow>
                    (case generic_visit_seq (d - 1) post cs2 of
                       Inl e \<Rightarrow> Inl e
                     | Inr cs3 \<Rightarrow> Inr (fst cs3, (snd cs3)\<lparr>current_class := None\<rparr>))))"
| "visit_seq d (Other children) cs =
     (if d = 0 then Inl RecursionError else generic_visit_seq (d - 1) children cs)"
| "generic_visit_seq d [] cs = Inr cs"
| "generic_visit_seq d (n # ns) cs =
     (case visit_seq d n cs of Inl e \<Rightarrow> Inl e | Inr cs' \<Rightarrow> generic_visit_seq d ns cs')"

section \<open>The symbol table\<close>

text \<open>
  \<open>build_function_to_file_map\<close>: for every file, every node of \<open>ast.walk(tree)\<close> that
  is a \<open>FunctionDef\<close> or a \<open>ClassDef\<close> writes the table; a later write replaces an
  earlier one. \<open>record_method\<close> is the inner loop over \<open>node.body\<close>, \<open>record_node\<close>
  the body of the loop over the walk.
\<close>

definition record_method :: "string \<Rightarrow> string \<Rightarrow> table \<Rightarrow> node \<Rightarrow> table" where
  "record_method file class_name ftf body_item =
     (case body_item of
        FunctionDef method_name children \<Rightarrow> ftf(class_name @ ''.'' @ method_name \<mapsto> file)
      | _ \<Rightarrow> ftf)"

definition record_node :: "string \<Rightarrow> table \<Rightarrow> node \<Rightarrow> table" where
  "record_node file ftf n =
     (case n of
        FunctionDef func_name children \<Rightarrow> ftf(func_name \<mapsto> file)
      | ClassDef class_name pre body post \<Rightarrow>
          foldl (record_method file class_name) (ftf(class_name \<mapsto> file)) body
      | _ \<Rightarrow> ftf)"

fun build_loop ::
  "(string \<Rightarrow> string) \<Rightarrow> (string \<Rightarrow> error + node) \<Rightarrow> string list \<Rightarrow> table \<Rightarrow> error + table" where
  "build_loop abspath ast_parse [] ftf = Inr ftf"
| "build_loop abspath ast_parse (file_path # rest) ftf =
     (case ast_parse file_path of
        Inl e \<Rightarrow> Inl e
      | Inr tree \<Rightarrow>
          build_loop abspath ast_parse rest
            (foldl (record_node (abspath file_path)) ftf (walk tree)))"

definition build_function_to_file_map ::
  "(string \<Rightarrow> string) \<Rightarrow> (string \<Rightarrow> error + node) \<Rightarrow> string list \<Rightarrow> error + table" where
  "build_function_to_file_map abspath ast_parse py_files =
     build_loop abspath ast_parse py_files Map.empty"

section \<open>Analysing the project\<close>

text \<open>
  \<open>parse_file\<close>: an exception of \<open>ast.parse\<close> or of the traversal leaves the function.
\<close>

definition parse_file ::
  "(string \<Rightarrow> string) \<Rightarrow> (string \<Rightarrow> error + node) \<Rightarrow> nat \<Rightarrow> string \<Rightarrow> table \<Rightarrow>
   error + visitor" where
  "parse_file abspath ast_parse recursion_limit file_path ftf =
     (case ast_parse file_path of
        Inl e \<Rightarrow> Inl e
      | Inr tree \<Rightarrow> visit recursion_limit tree (ExecutionFlowVisitor abspath file_path ftf))"

text \<open>
  The dictionary \<open>visitors\<close> keeps its keys in insertion order; assigning to a key it
  has replaces the value in place (\<open>AList.update\<close>).
\<close>

fun analyze_loop ::
  "(string \<Rightarrow> string) \<Rightarrow> (string \<Rightarrow> error + node) \<Rightarrow> nat \<Rightarrow> table \<Rightarrow> string list \<Rightarrow>
   (string \<times> visitor) list \<Rightarrow> error + (string \<times> visitor) list" where
  "analyze_loop abspath ast_parse recursion_limit ftf [] visitors = Inr visitors"
| "analyze_loop abspath ast_parse recursion_limit ftf (file_path # rest) visitors =
     (case parse_file abspath ast_parse recursion_limit file_path ftf of
        Inl e \<Rightarrow> Inl e
      | Inr v \<Rightarrow>
          analyze_loop abspath ast_parse recursion_limit ftf rest
            (AList.update (abspath file_path) v visitors))"

definition analyze_project ::
  "(string \<Rightarrow> string) \<Rightarrow> (string \<Rightarrow> error + node) \<Rightarrow> nat \<Rightarrow> string list \<Rightarrow>
   error + (string \<times> visitor) list" where
  "analyze_project abspath ast_parse recursion_limit py_files =
     (case build_function_to_file_map abspath ast_parse py_files of
        Inl e \<Rightarrow> Inl e
      | Inr func_to_file' \<Rightarrow>
          analyze_loop abspath ast_parse recursion_limit func_to_file' py_files [])"

text \<open>The sequenced script: the global counter runs through all files.\<close>

definition parse_file_seq ::
  "(string \<Rightarrow> string) \<Rightarrow> (string \<Rightarrow> error + node) \<Rightarrow> nat \<Rightarrow> string \<Rightarrow> table \<Rightarrow> int \<Rightarrow>
   error + int \<times> seq_visitor" where
  "parse_file_seq abspath ast_parse recursion_limit file_path ftf call_sequence_counter =
     (case ast_parse file_path of
        Inl e \<Rightarrow> Inl e
      | Inr tree \<Rightarrow>
          visit_seq recursion_limit tree
            (call_sequence_counter, ExecutionFlowVisitor_seq abspath file_path ftf))"

fun analyze_loop_seq ::
  "(string \<Rightarrow> string) \<Rightarrow> (string \<Rightarrow> error + node) \<Rightarrow> nat \<Rightarrow> table \<Rightarrow> string list \<Rightarrow>
   int \<times> (string \<times> seq_visitor) list \<Rightarrow> error + int \<times> (string \<times> seq_visitor) list" where
  "analyze_loop_seq abspath ast_parse recursion_limit ftf [] cvs = Inr cvs"
| "analyze_loop_seq abspath ast_parse recursion_limit ftf (file_path # rest) cvs =
     (case parse_file_seq abspath ast_parse recursion_limit file_path ftf (fst cvs) of
        Inl e \<Rightarrow> Inl e
      | Inr (c, v) \<Rightarrow>
          analyze_loop_seq abspath ast_parse recursion_limit ftf rest
            (c, AList.update (abspath file_path) v (snd cvs)))"

text \<open>
  \<open>analyze_project\<close> of the sequenced script, from the counter's value when it is
  called; the result holds the counter's value afterwards.
\<close>

definition analyze_project_seq ::
  "(string \<Rightarrow> string) \<Rightarrow> (string \<Rightarrow> error + node) \<Rightarrow> nat \<Rightarrow> string list \<Rightarrow> int \<Rightarrow>
   error + int \<times> (string \<times> seq_visitor) list" where
  "analyze_project_seq abspath ast_parse recursion_limit py_files call_sequence_counter =
     (case build_function_to_file_map abspath ast_parse py_files of
        Inl e \<Rightarrow> Inl e
      | Inr func_to_file' \<Rightarrow>
          analyze_loop_seq abspath ast_parse recursion_limit func_to_file' py_files
            (call_sequence_counter, []))"

section \<open>The diagram\<close>

text \<open>
  \<open>find_source_file\<close>: only \<open>ModuleNotFoundError\<close> is caught; any other exception of
  \<open>find_spec\<close> leaves the function.
\<close>

definition find_source_file ::
  "(string \<Rightarrow> string) \<Rightarrow> (string \<Rightarrow> error + module_spec option) \<Rightarrow> string \<Rightarrow>
   error + string option" where
  "find_source_file abspath find_spec module_name =
     (case find_spec module_name of
        Inl ModuleNotFoundError \<Rightarrow> Inr None
      | Inl e \<Rightarrow> Inl e
      | Inr None \<Rightarrow> Inr None
      | Inr (Some spec) \<Rightarrow>
          (case origin spec of
             None \<Rightarrow> Inr None
           | Some orig \<Rightarrow>
               if orig \<noteq> [] \<and> endswith orig ''.py'' then Inr (Some (abspath orig))
               else Inr None))"

text \<open>
  The graph handed to the renderer: the node identifiers and the edges, each in the
  order of the \<open>dot.node\<close> and \<open>dot.edge\<close> calls. The text of a node's label is not
  modelled.
\<close>

record edge =
  tail_name :: string
  head_name :: string
  label :: string
  color :: string

record digraph =
  nodes :: "string list"
  edges :: "edge list"

definition dot_edge :: "string \<Rightarrow> string \<Rightarrow> string \<Rightarrow> string \<Rightarrow> digraph \<Rightarrow> digraph" where
  "dot_edge t h l c dot =
     dot\<lparr>edges := edges dot @ [\<lparr>tail_name = t, head_name = h, label = l, color = c\<rparr>]\<rparr>"

definition dot_node :: "string \<Rightarrow> digraph \<Rightarrow> digraph" where
  "dot_node file_path dot = dot\<lparr>nodes := nodes dot @ [file_path]\<rparr>"

text \<open>\<open>key in visitors\<close>.\<close>

definition in_visitors :: "string \<Rightarrow> (string \<times> 'v) list \<Rightarrow> bool" where
  "in_visitors key visitors \<longleftrightarrow> key \<in> set (map fst visitors)"

text \<open>The body of the loop over a visitor's imports, and the two loops around it.\<close>

definition import_step ::
  "(string \<Rightarrow> string) \<Rightarrow> (string \<Rightarrow> error + module_spec option) \<Rightarrow> (string \<times> 'v) list \<Rightarrow>
   string \<times> string \<Rightarrow> digraph \<Rightarrow> error + digraph" where
  "import_step abspath find_spec visitors imp dot =
     (case imp of (importer_file, imported_module) \<Rightarrow>
       (case find_source_file abspath find_spec imported_module of
          Inl e \<Rightarrow> Inl e
        | Inr None \<Rightarrow> Inr dot
        | Inr (Some imported_file) \<Rightarrow>
            if imported_file \<noteq> [] \<and> in_visitors imported_file visitors
            then Inr (dot_edge importer_file imported_file ''imports'' ''blue'' dot)
            else Inr dot))"

fun import_loop ::
  "(string \<Rightarrow> string) \<Rightarrow> (string \<Rightarrow> error + module_spec option) \<Rightarrow> (string \<times> 'v) list \<Rightarrow>
   (string \<times> string) list \<Rightarrow> digraph \<Rightarrow> error + digraph" where
  "import_loop abspath find_spec visitors [] dot = Inr dot"
| "import_loop abspath find_spec visitors (imp # rest) dot =
     (case import_step abspath find_spec visitors imp dot of
        Inl e \<Rightarrow> Inl e
      | Inr dot' \<Rightarrow> import_loop abspath find_spec visitors rest dot')"

fun import_edges ::
  "(string \<Rightarrow> string) \<Rightarrow> (string \<Rightarrow> error + module_spec option) \<Rightarrow>
   (string \<times> 'a visitor_scheme) list \<Rightarrow> (string \<times> 'a visitor_scheme) list \<Rightarrow> digraph \<Rightarrow>
   error + digraph" where
  "import_edges abspath find_spec visitors [] dot = Inr dot"
| "import_edges abspath find_spec visitors (kv # rest) dot =
     (case import_loop abspath find_spec visitors (imports_set (snd kv)) dot of
        Inl e \<Rightarrow> Inl e
      | Inr dot' \<Rightarrow> import_edges abspath find_spec visitors rest dot')"

text \<open>The loop over \<open>visitor.function_calls\<close> of \<open>Execution_diagram.py\<close>.\<close>

definition call_step :: "(string \<times> 'v) list \<Rightarrow> digraph \<Rightarrow> string \<times> string \<Rightarrow> digraph" where
  "call_step visitors dot call =
     (case call of (caller_file, callee_file) \<Rightarrow>
        if callee_file \<noteq> [] \<and> in_visitors callee_file visitors
        then dot_edge caller_file callee_file ''calls'' ''black'' dot
        else dot)"

definition call_edges :: "(string \<times> visitor) list \<Rightarrow> digraph \<Rightarrow> digraph" where
  "call_edges visitors dot =
     foldl (\<lambda>d kv. foldl (call_step visitors) d (function_calls (snd kv))) dot visitors"

definition create_execution_diagram ::
  "(string \<Rightarrow> string) \<Rightarrow> (string \<Rightarrow> error + module_spec option) \<Rightarrow>
   (string \<times> visitor) list \<Rightarrow> error + digraph" where
  "create_execution_diagram abspath find_spec visitors =
     (let dot = foldl (\<lambda>d kv. dot_node (fst kv) d) \<lparr>nodes = [], edges = []\<rparr> visitors
      in case import_edges abspath find_spec visitors visitors dot of
           Inl e \<Rightarrow> Inl e
         | Inr dot' \<Rightarrow> Inr (call_edges visitors dot'))"

text \<open>
  \<open>Execution_diagram_iteration.py\<close>: the calls of all visitors are collected, sorted
  by sequence number (\<open>list.sort\<close> is stable) and drawn before the imports.
\<close>

definition all_calls_with_sequence ::
  "(string \<times> seq_visitor) list \<Rightarrow> (int \<times> string \<times> string) list" where
  "all_calls_with_sequence visitors =
     sort_key fst (concat (map (\<lambda>kv. calls_with_sequence (snd kv)) visitors))"

definition call_step_seq ::
  "(string \<times> 'v) list \<Rightarrow> digraph \<Rightarrow> int \<times> string \<times> string \<Rightarrow> digraph" where
  "call_step_seq visitors dot call =
     (case call of (seq_num, caller_file, callee_file) \<Rightarrow>
        if callee_file \<noteq> [] \<and> in_visitors callee_file visitors
        then dot_edge caller_file callee_file (''call '' @ str seq_num) ''black'' dot
        else dot)"

definition create_execution_diagram_seq ::
  "(string \<Rightarrow> string) \<Rightarrow> (string \<Rightarrow> error + module_spec option) \<Rightarrow>
   (string \<times> seq_visitor) list \<Rightarrow> error + digraph" where
  "create_execution_diagram_seq abspath find_spec visitors =
     (let dot = foldl (\<lambda>d kv. dot_node (fst kv) d) \<lparr>nodes = [], edges = []\<rparr> visitors;
          dot1 = foldl (call_step_seq visitors) dot (all_calls_with_sequence visitors)
      in import_edges abspath find_spec visitors visitors dot1)"

text \<open>
  The scripts' main part: analyse, then draw. The sequenced script starts with
  \<open>call_sequence_counter = 0\<close>.
\<close>

definition main ::
  "(string \<Rightarrow> string) \<Rightarrow> (string \<Rightarrow> error + node) \<Rightarrow> (string \<Rightarrow> error + module_spec option) \<Rightarrow>
   nat \<Rightarrow> string list \<Rightarrow> error + digraph" where
  "main abspath ast_parse find_spec recursion_limit py_files =
     (case analyze_project abspath ast_parse recursion_limit py_files of
        Inl e \<Rightarrow> Inl e
      | Inr visitors \<Rightarrow> create_execution_diagram abspath find_spec visitors)"

definition main_seq ::
  "(string \<Rightarrow> string) \<Rightarrow> (string \<Rightarrow> error + node) \<Rightarrow> (string \<Rightarrow> error + module_spec option) \<Rightarrow>
   nat \<Rightarrow> string list \<Rightarrow> error + digraph" where
  "main_seq abspath ast_parse find_spec recursion_limit py_files =
     (case analyze_project_seq abspath ast_parse recursion_limit py_files 0 of
        Inl e \<Rightarrow> Inl e
      | Inr (c, visitors) \<Rightarrow> create_execution_diagram_seq abspath find_spec visitors)"

section \<open>A small project\<close>

text \<open>
  Files for the concrete runs below. \<open>worker.py\<close> is
  \<^verbatim>\<open>class Worker:
    def run(self): pass\<close>
  \<open>caller.py\<close> is \<^verbatim>\<open>Worker().run()\<close>, \<open>helper.py\<close> is \<^verbatim>\<open>def helper(): pass\<close>,
  \<open>twice.py\<close> is \<^verbatim>\<open>helper()
helper()\<close>
  and \<open>nested.py\<close> is
  \<^verbatim>\<open>class Outer:
    class Inner:
        def m(self): pass
    def after(self): pass\<close>
  and \<open>selfimport.py\<close> is \<^verbatim>\<open>import __main__\<close>, for which \<open>find_spec\<close> raises
  \<open>ValueError\<close> in a script that runs as \<open>__main__\<close>.
  Every other path holds text that does not parse. The working directory is \<open>/w\<close>.
  \<open>Other []\<close> stands for \<open>pass\<close> and for an argument list without defaults; an
  expression statement is \<open>Other [expression]\<close>, a module \<open>Other body\<close>.
\<close>

definition example_abspath :: "string \<Rightarrow> string" where
  "example_abspath p = (if take 1 p = ''/'' then p else ''/w/'' @ p)"

definition worker_py :: node where
  "worker_py = Other [ClassDef ''Worker'' [] [FunctionDef ''run'' [Other [], Other []]] []]"

definition caller_py :: node where
  "caller_py = Other [Other [Call (Attribute (Call (Name ''Worker'') []) ''run'') []]]"

definition helper_py :: node where
  "helper_py = Other [FunctionDef ''helper'' [Other [], Other []]]"

definition twice_py :: node where
  "twice_py = Other [Other [Call (Name ''helper'') []], Other [Call (Name ''helper'') []]]"

definition nested_py :: node where
  "nested_py =
     Other [ClassDef ''Outer'' []
              [ClassDef ''Inner'' [] [FunctionDef ''m'' [Other [], Other []]] [],
               FunctionDef ''after'' [Other [], Other []]] []]"

definition selfimport_py :: node where
  "selfimport_py = Other [Import [''__main__'']]"

definition example_parse :: "string \<Rightarrow> error + node" where
  "example_parse p =
     (if p = ''worker.py'' then Inr worker_py
      else if p = ''selfimport.py'' then Inr selfimport_py
      else if p = ''caller.py'' then Inr caller_py
      else if p = ''helper.py'' then Inr helper_py
      else if p = ''twice.py'' then Inr twice_py
      else if p = ''nested.py'' then Inr nested_py
      else Inl (SyntaxError ''invalid syntax''))"

definition example_find_spec :: "string \<Rightarrow> error + module_spec option" where
  "example_find_spec m =
     (if m = ''helper'' then Inr (Some (ModuleSpec (Some ''helper.py'')))
      else if m = ''os'' then Inr (Some (ModuleSpec (Some ''/usr/lib/python3/os.py'')))
      else if m = ''sys'' then Inr (Some (ModuleSpec (Some ''built-in'')))
      else if m = ''collections.abc'' then Inr None
      else if m = ''__main__'' then Inl (OtherException ''ValueError: __main__.__spec__ is None'')
      else Inl ModuleNotFoundError)"

section \<open>Notions used in the proofs\<close>



text \<open>
  What holds of the calls a visitor of \<open>file\<close> has recorded, given the table it reads:
  every call leaves \<open>file\<close>, reaches another, non-empty path, and that path is a value
  of the table. \<open>stamped\<close> adds what holds of the sequence numbers of a visitor that
  started at the counter value \<open>c0\<close>.
\<close>

definition calls_ok :: "string \<Rightarrow> table \<Rightarrow> (string \<times> string) list \<Rightarrow> bool" where
  "calls_ok file ftf calls \<longleftrightarrow>
     distinct calls
     \<and> (\<forall>c \<in> set calls. fst c = file \<and> snd c \<noteq> file \<and> snd c \<noteq> [] \<and> snd c \<in> ran ftf)"

definition calls_seq_ok :: "string \<Rightarrow> table \<Rightarrow> (int \<times> string \<times> string) list \<Rightarrow> bool" where
  "calls_seq_ok file ftf calls \<longleftrightarrow>
     (\<forall>c \<in> set calls. fst (snd c) = file \<and> snd (snd c) \<noteq> file \<and> snd (snd c) \<noteq> []
                      \<and> snd (snd c) \<in> ran ftf)"

definition stamped :: "string \<Rightarrow> table \<Rightarrow> int \<Rightarrow> int \<times> seq_visitor \<Rightarrow> bool" where
  "stamped file ftf c0 cs \<longleftrightarrow>
     filename (snd cs) = file \<and> func_to_file (snd cs) = ftf
     \<and> calls_seq_ok file ftf (calls_with_sequence (snd cs))
     \<and> map fst (calls_with_sequence (snd cs)) = [c0 + 1..fst cs] \<and> c0 \<le> fst cs"


text \<open>The edges that the two scripts draw for a recorded call.\<close>

definition call_edge :: "string \<times> string \<Rightarrow> edge" where
  "call_edge c = \<lparr>tail_name = fst c, head_name = snd c, label = ''calls'', color = ''black''\<rparr>"

definition seq_edge :: "int \<times> string \<times> string \<Rightarrow> edge" where
  "seq_edge c = \<lparr>tail_name = fst (snd c), head_name = snd (snd c),
                 label = ''call '' @ str (fst c), color = ''black''\<rparr>"




section \<open>What a traversal leaves unchanged\<close>

lemma set_set_add [simp]: "set (set_add x s) = insert x (set s)"
  by (auto simp: set_add_def)

lemma distinct_set_add [simp]: "distinct (set_add x s) = distinct s"
  by (auto simp: set_add_def)

lemma record_output_frame [simp]:
  "filename (record_output f st) = filename st"
  "func_to_file (record_output f st) = func_to_file st"
  "function_calls (record_output f st) = function_calls st"
  "functions_set (record_output f st) = functions_set st"
  "current_class (record_output f st) = current_class st"
  "imports_set (record_output f st) = imports_set st"
  by (simp_all add: record_output_def)

lemma record_output_seq_frame [simp]:
  "calls_with_sequence (record_output f st) = calls_with_sequence st"
  by (simp add: record_output_def)

lemma visit_Call_frame [simp]:
  "filename (visit_Call f st) = filename st"
  "func_to_file (visit_Call f st) = func_to_file st"
  "functions_set (visit_Call f st) = functions_set st"
  "current_class (visit_Call f st) = current_class st"
  by (simp_all add: visit_Call_def Let_def split: option.splits)

lemma visit_Import_frame [simp]:
  "filename (visit_Import ns st) = filename st"
  "func_to_file (visit_Import ns st) = func_to_file st"
  "function_calls (visit_Import ns st) = function_calls st"
  "functions_set (visit_Import ns st) = functions_set st"
  "current_class (visit_Import ns st) = current_class st"
  by (simp_all add: visit_Import_def)

lemma visit_ImportFrom_frame [simp]:
  "filename (visit_ImportFrom m ns st) = filename st"
  "func_to_file (visit_ImportFrom m ns st) = func_to_file st"
  "function_calls (visit_ImportFrom m ns st) = function_calls st"
  "functions_set (visit_ImportFrom m ns st) = functions_set st"
  "current_class (visit_ImportFrom m ns st) = current_class st"
  by (simp_all add: visit_ImportFrom_def)


text \<open>
  A property of the visitor that every \<open>visit_\<close> method keeps holds after every
  traversal that returns.
\<close>

lemma visit_invariant:
  assumes "\<And>f s. I s \<Longrightarrow> I (visit_Call f s)"
    and "\<And>ns s. I s \<Longrightarrow> I (visit_Import ns s)"
    and "\<And>m ns s. I s \<Longrightarrow> I (visit_ImportFrom m ns s)"
    and "\<And>name s. I s \<Longrightarrow> I (s\<lparr>functions_set := set_add name (functions_set s)\<rparr>)"
    and "\<And>name s. I s \<Longrightarrow>
           I (s\<lparr>classes := set_add name (classes s), current_class := Some name\<rparr>)"
    and "\<And>s. I s \<Longrightarrow> I (s\<lparr>current_class := None\<rparr>)"
  shows "I st \<Longrightarrow> visit d n st = Inr st' \<Longrightarrow> I st'"
    and "I st \<Longrightarrow> generic_visit d ns st = Inr st' \<Longrightarrow> I st'"
proof (induction d n st and d ns st arbitrary: st' and st' rule: visit_generic_visit.induct)
  case (1 d ident st)
  then show ?case by (simp split: if_splits)
next
  case (2 d v attr st)
  then show ?case by (simp split: if_splits)
next
  case (3 d func args st)
  from 3(4) obtain st1 where d: "d \<noteq> 0"
    and a: "visit (d - 1) func (visit_Call func st) = Inr st1"
    and b: "generic_visit (d - 1) args st1 = Inr st'"
    by (auto split: if_splits sum.splits)
  have "I (visit_Call func st)" using 3(3) by (rule assms(1))
  from 3(1) [OF d this a] have "I st1" .
  from 3(2) [OF d a this b] show ?case .
next
  case (4 d names st)
  then show ?case using assms(2) by (auto split: if_splits)
next
  case (5 d module names st)
  then show ?case using assms(3) by (auto split: if_splits)
next
  case (6 d name children st)
  let ?s1 = "if current_class st = None
             then st\<lparr>functions_set := set_add name (functions_set st)\<rparr> else st"
  from 6(3) have d: "d \<noteq> 0" and a: "generic_visit (d - 1) children ?s1 = Inr st'"
    by (auto split: if_splits)
  have "I ?s1" using 6(2) assms(4) by simp
  from 6(1) [OF d this a] show ?case .
next
  case (7 d name pre body post st)
  let ?s0 = "st\<lparr>classes := set_add name (classes st), current_class := Some name\<rparr>"
  from 7(5) obtain st1 st2 st3 where d: "d \<noteq> 0"
    and a: "generic_visit (d - 1) pre ?s0 = Inr st1"
    and b: "generic_visit (d - 1) body st1 = Inr st2"
    and c: "generic_visit (d - 1) post st2 = Inr st3"
    and r: "st' = st3\<lparr>current_class := None\<rparr>"
    by (auto split: if_splits sum.splits)
  have "I ?s0" using 7(4) by (rule assms(5))
  from 7(1) [OF d this a] have "I st1" .
  from 7(2) [OF d a this b] have "I st2" .
  from 7(3) [OF d a b this c] have "I st3" .
  then show ?case unfolding r by (rule assms(6))
next
  case (8 d children st)
  then show ?case by (simp split: if_splits)
next
  case (9 d st)
  then show ?case by simp
next
  case (10 d n ns st)
  from 10(4) obtain st1 where a: "visit d n st = Inr st1"
    and b: "generic_visit d ns st1 = Inr st'"
    by (auto split: sum.splits)
  from 10(1) [OF 10(3) a] have "I st1" .
  from 10(2) [OF a this b] show ?case .
qed

lemma visit_frame:
  assumes "visit d n st = Inr st'"
  shows "filename st' = filename st \<and> func_to_file st' = func_to_file st"
proof -
  define I where "I s \<longleftrightarrow> filename s = filename st \<and> func_to_file s = func_to_file st"
    for s :: visitor
  have "I st" by (simp add: I_def)
  then have "I st'" by (rule visit_invariant(1) [of I, rotated -2, OF _ assms]) (simp_all add: I_def)
  then show ?thesis by (simp add: I_def)
qed




section \<open>When a traversal returns\<close>





section \<open>Parse failures\<close>

lemma build_loop_first_failure:
  "\<forall>p \<in> set pre. \<not> isl (ast_parse p) \<Longrightarrow> ast_parse q = Inl e \<Longrightarrow>
   build_loop abspath ast_parse (pre @ q # post) ftf = Inl e"
proof (induction pre arbitrary: ftf)
  case Nil
  then show ?case by simp
next
  case (Cons f fs)
  from Cons.prems(1) obtain tree where t: "ast_parse f = Inr tree"
    by (cases "ast_parse f") auto
  from Cons.prems(1) have "\<forall>p \<in> set fs. \<not> isl (ast_parse p)" by simp
  from Cons.IH [OF this Cons.prems(2)] t show ?case by simp
qed


text \<open>
  C1, as the code has it: neither script catches anything around \<open>ast.parse\<close>. When
  some file of the run does not parse, the list of files splits at the first such file
  \<open>q\<close> (every file before it parses), and the exception that \<open>ast.parse\<close> raises on \<open>q\<close>
  leaves \<open>build_function_to_file_map\<close>, and with it \<open>analyze_project\<close> and the whole
  run, in both scripts: there is no symbol table, no visitor and no graph, for any file.
\<close>

theorem parse_failure_aborts_run:
  assumes "p \<in> set py_files" and "ast_parse p = Inl e0"
  shows "\<exists>pre q post e.
           py_files = pre @ q # post
           \<and> (\<forall>f \<in> set pre. \<exists>tree. ast_parse f = Inr tree)
           \<and> ast_parse q = Inl e
           \<and> build_function_to_file_map abspath ast_parse py_files = Inl e
           \<and> analyze_project abspath ast_parse recursion_limit py_files = Inl e
           \<and> main abspath ast_parse find_spec recursion_limit py_files = Inl e
           \<and> analyze_project_seq abspath ast_parse recursion_limit py_files c = Inl e
           \<and> main_seq abspath ast_parse find_spec recursion_limit py_files = Inl e"
proof -
  from assms have "\<exists>f \<in> set py_files. isl (ast_parse f)" by (auto intro: bexI [of _ p])
  from split_list_first_prop [OF this] obtain pre q post where
    s: "py_files = pre @ q # post" and q: "isl (ast_parse q)"
    and pre: "\<forall>f \<in> set pre. \<not> isl (ast_parse f)"
    by blast
  from q obtain e where e: "ast_parse q = Inl e" by (cases "ast_parse q") auto
  have ok: "\<forall>f \<in> set pre. \<exists>tree. ast_parse f = Inr tree"
  proof
    fix f assume "f \<in> set pre"
    with pre have "\<not> isl (ast_parse f)" by simp
    then show "\<exists>tree. ast_parse f = Inr tree" by (cases "ast_parse f") auto
  qed
  have b: "build_function_to_file_map abspath ast_parse py_files = Inl e"
    unfolding build_function_to_file_map_def s
    using pre e by (rule build_loop_first_failure)
  then have "analyze_project abspath ast_parse recursion_limit py_files = Inl e"
    "main abspath ast_parse find_spec recursion_limit py_files = Inl e"
    "analyze_project_seq abspath ast_parse recursion_limit py_files c = Inl e"
    "main_seq abspath ast_parse find_spec recursion_limit py_files = Inl e"
    by (simp_all add: analyze_project_def main_def analyze_project_seq_def main_seq_def)
  with s ok e b show ?thesis by blast
qed


text \<open>
  The theorem at the run over \<open>worker.py\<close>, \<open>broken.py\<close>, \<open>caller.py\<close> and
  \<open>missing.py\<close>, of which the second and the fourth do not parse.
\<close>

theorem parse_failure_aborts_run_witness:
  "''broken.py'' \<in> set [''worker.py'', ''broken.py'', ''caller.py'', ''missing.py'']
   \<and> example_parse ''broken.py'' = Inl (SyntaxError ''invalid syntax'')
   \<and> (\<exists>pre q post e.
         [''worker.py'', ''broken.py'', ''caller.py'', ''missing.py''] = pre @ q # post
         \<and> (\<forall>f \<in> set pre. \<exists>tree. example_parse f = Inr tree)
         \<and> example_parse q = Inl e
         \<and> build_function_to_file_map example_abspath example_parse
              [''worker.py'', ''broken.py'', ''caller.py'', ''missing.py''] = Inl e
         \<and> analyze_project example_abspath example_parse 1000
              [''worker.py'', ''broken.py'', ''caller.py'', ''missing.py''] = Inl e
         \<and> main example_abspath example_parse example_find_spec 1000
              [''worker.py'', ''broken.py'', ''caller.py'', ''missing.py''] = Inl e
         \<and> analyze_project_seq example_abspath example_parse 1000
              [''worker.py'', ''broken.py'', ''caller.py'', ''missing.py''] 0 = Inl e
         \<and> main_seq example_abspath example_parse example_find_spec 1000
              [''worker.py'', ''broken.py'', ''caller.py'', ''missing.py''] = Inl e)"
proof -
  have a: "''broken.py'' \<in> set [''worker.py'', ''broken.py'', ''caller.py'', ''missing.py'']"
    by simp
  have b: "example_parse ''broken.py'' = Inl (SyntaxError ''invalid syntax'')"
    by (simp add: example_parse_def)
  from parse_failure_aborts_run [where p = "''broken.py''"
      and py_files = "[''worker.py'', ''broken.py'', ''caller.py'', ''missing.py'']"
      and ast_parse = example_parse and ?e0.0 = "SyntaxError ''invalid syntax''"
      and abspath = example_abspath and find_spec = example_find_spec and c = 0
      and recursion_limit = 1000] a b
  show ?thesis by blast
qed


text \<open>
  C1 as stated fails: \<open>worker.py\<close> and \<open>caller.py\<close> parse, \<open>broken.py\<close> does not, and
  neither script returns a graph: the run ends with the \<open>SyntaxError\<close>.
\<close>

theorem parse_failure_counterexample:
  "example_parse ''worker.py'' = Inr worker_py
   \<and> example_parse ''caller.py'' = Inr caller_py
   \<and> example_parse ''broken.py'' = Inl (SyntaxError ''invalid syntax'')
   \<and> main example_abspath example_parse example_find_spec 1000
        [''worker.py'', ''broken.py'', ''caller.py''] = Inl (SyntaxError ''invalid syntax'')
   \<and> main_seq example_abspath example_parse example_find_spec 1000
        [''worker.py'', ''broken.py'', ''caller.py''] = Inl (SyntaxError ''invalid syntax'')"
  by code_simp


section \<open>Resolving the name of a call\<close>

lemma attribute_loop_foldl:
  "attribute_loop (foldl Attribute n attrs) parts = attribute_loop n (attrs @ parts)"
  by (induction attrs arbitrary: parts rule: rev_induct) simp_all

lemma get_attribute_name_chain:
  "get_attribute_name (foldl Attribute (Name base) attrs) = join ''.'' (base # attrs)"
  by (simp add: get_attribute_name_def attribute_loop_foldl)

lemma get_func_name_chain:
  "get_func_name (foldl Attribute (Name base) attrs) = Some (join ''.'' (base # attrs))"
proof (cases attrs rule: rev_cases)
  case Nil
  then show ?thesis by (simp add: get_func_name_def)
next
  case (snoc as a)
  have "get_func_name (Attribute (foldl Attribute (Name base) as) a)
        = Some (get_attribute_name (Attribute (foldl Attribute (Name base) as) a))"
    by (simp add: get_func_name_def)
  also have "Attribute (foldl Attribute (Name base) as) a = foldl Attribute (Name base) attrs"
    using snoc by simp
  finally show ?thesis by (simp add: get_attribute_name_chain)
qed

lemma visit_Call_records:
  "get_func_name func = Some func_name \<Longrightarrow>
   function_calls (visit_Call func st)
   = (case func_to_file st func_name of
        None \<Rightarrow> function_calls st
      | Some callee_file \<Rightarrow>
          if func_name \<noteq> [] \<and> callee_file \<noteq> [] \<and> callee_file \<noteq> filename st
          then set_add (filename st, callee_file) (function_calls st)
          else function_calls st)"
  by (simp add: visit_Call_def find_callee_file_def Let_def split: option.splits)

lemma visit_Call_seq_records:
  "get_func_name func = Some func_name \<Longrightarrow>
   calls_with_sequence (snd (visit_Call_seq func (c, sst)))
   = (case func_to_file sst func_name of
        None \<Rightarrow> calls_with_sequence sst
      | Some callee_file \<Rightarrow>
          if func_name \<noteq> [] \<and> callee_file \<noteq> [] \<and> callee_file \<noteq> filename sst
          then calls_with_sequence sst @ [(c + 1, filename sst, callee_file)]
          else calls_with_sequence sst)"
  by (simp add: visit_Call_seq_def find_callee_file_def Let_def split: option.splits)


text \<open>
  C9: the name of a call on a bare identifier is the identifier; the name of a call on
  an attribute chain over a base identifier (\<open>foldl Attribute (Name base) attrs\<close> is
  \<open>base.a1. ... .an\<close>) is the base and the attributes, base first, joined with a dot.
  What \<open>visit_Call\<close> records for a call with the name \<open>func_name\<close>, in both scripts, is
  decided by the table's entry under exactly \<open>func_name\<close>: without one nothing is
  recorded, with one the call to that entry's file is (unless the file is the visitor's
  own or the empty path). An entry under any other key (\<open>Foo\<close> or \<open>module.foo\<close> for a
  call to \<open>foo\<close>) changes nothing of what is recorded.
\<close>

theorem name_resolution_exact:
  "get_func_name (Name ident) = Some ident
   \<and> get_func_name (foldl Attribute (Name base) attrs) = Some (join ''.'' (base # attrs))
   \<and> (get_func_name func = Some func_name \<longrightarrow>
        function_calls (visit_Call func st)
        = (case func_to_file st func_name of
             None \<Rightarrow> function_calls st
           | Some callee_file \<Rightarrow>
               if func_name \<noteq> [] \<and> callee_file \<noteq> [] \<and> callee_file \<noteq> filename st
               then set_add (filename st, callee_file) (function_calls st)
               else function_calls st)
        \<and> calls_with_sequence (snd (visit_Call_seq func (c, sst)))
        = (case func_to_file sst func_name of
             None \<Rightarrow> calls_with_sequence sst
           | Some callee_file \<Rightarrow>
               if func_name \<noteq> [] \<and> callee_file \<noteq> [] \<and> callee_file \<noteq> filename sst
               then calls_with_sequence sst @ [(c + 1, filename sst, callee_file)]
               else calls_with_sequence sst))
   \<and> (get_func_name func = Some func_name \<and> key \<noteq> func_name \<longrightarrow>
        function_calls (visit_Call func (st\<lparr>func_to_file := (func_to_file st)(key \<mapsto> other)\<rparr>))
        = function_calls (visit_Call func st)
        \<and> calls_with_sequence
            (snd (visit_Call_seq func
                    (c, sst\<lparr>func_to_file := (func_to_file sst)(key \<mapsto> other)\<rparr>)))
        = calls_with_sequence (snd (visit_Call_seq func (c, sst))))"
proof (intro conjI impI)
  show "get_func_name (Name ident) = Some ident" by (simp add: get_func_name_def)
  show "get_func_name (foldl Attribute (Name base) attrs) = Some (join ''.'' (base # attrs))"
    by (rule get_func_name_chain)
next
  assume "get_func_name func = Some func_name"
  then show "function_calls (visit_Call func st)
        = (case func_to_file st func_name of
             None \<Rightarrow> function_calls st
           | Some callee_file \<Rightarrow>
               if func_name \<noteq> [] \<and> callee_file \<noteq> [] \<and> callee_file \<noteq> filename st
               then set_add (filename st, callee_file) (function_calls st)
               else function_calls st)"
    by (rule visit_Call_records)
next
  assume "get_func_name func = Some func_name"
  then show "calls_with_sequence (snd (visit_Call_seq func (c, sst)))
        = (case func_to_file sst func_name of
             None \<Rightarrow> calls_with_sequence sst
           | Some callee_file \<Rightarrow>
               if func_name \<noteq> [] \<and> callee_file \<noteq> [] \<and> callee_file \<noteq> filename sst
               then calls_with_sequence sst @ [(c + 1, filename sst, callee_file)]
               else calls_with_sequence sst)"
    by (rule visit_Call_seq_records)
next
  assume a: "get_func_name func = Some func_name \<and> key \<noteq> func_name"
  then show "function_calls
       (visit_Call func (st\<lparr>func_to_file := (func_to_file st)(key \<mapsto> other)\<rparr>))
        = function_calls (visit_Call func st)"
    by (auto simp: visit_Call_records [of func func_name] split: option.splits)
next
  assume a: "get_func_name func = Some func_name \<and> key \<noteq> func_name"
  then show "calls_with_sequence
            (snd (visit_Call_seq func
                    (c, sst\<lparr>func_to_file := (func_to_file sst)(key \<mapsto> other)\<rparr>)))
        = calls_with_sequence (snd (visit_Call_seq func (c, sst)))"
    by (auto simp: visit_Call_seq_records [of func func_name] split: option.splits)
qed


text \<open>
  The theorem at the calls \<open>foo()\<close> and \<open>a.b.c()\<close>: with a table that holds only
  \<open>Foo\<close> and \<open>module.foo\<close> the visitor of \<open>caller.py\<close> records nothing for \<open>foo()\<close>;
  with a table that holds \<open>foo\<close> it records the call, and an added entry \<open>Foo\<close> does
  not change that.
\<close>

theorem name_resolution_exact_witness:
  "get_func_name (Name ''foo'') = Some ''foo''
   \<and> get_func_name (Attribute (Attribute (Name ''a'') ''b'') ''c'') = Some ''a.b.c''
   \<and> ''Foo'' \<noteq> ''foo''
   \<and> function_calls
         (visit_Call (Name ''foo'')
            (ExecutionFlowVisitor example_abspath ''caller.py''
               [''Foo'' \<mapsto> ''/w/worker.py'', ''module.foo'' \<mapsto> ''/w/helper.py''])) = []
   \<and> function_calls
         (visit_Call (Name ''foo'')
            (ExecutionFlowVisitor example_abspath ''caller.py'' [''foo'' \<mapsto> ''/w/helper.py'']))
       = [(''/w/caller.py'', ''/w/helper.py'')]
   \<and> function_calls
         (visit_Call (Name ''foo'')
            ((ExecutionFlowVisitor example_abspath ''caller.py'' [''foo'' \<mapsto> ''/w/helper.py''])
               \<lparr>func_to_file := (func_to_file (ExecutionFlowVisitor example_abspath ''caller.py''
                    [''foo'' \<mapsto> ''/w/helper.py'']))(''Foo'' \<mapsto> ''/w/worker.py'')\<rparr>))
       = [(''/w/caller.py'', ''/w/helper.py'')]"
proof -
  let ?none = "ExecutionFlowVisitor example_abspath ''caller.py''
                 [''Foo'' \<mapsto> ''/w/worker.py'', ''module.foo'' \<mapsto> ''/w/helper.py'']"
  let ?some = "ExecutionFlowVisitor example_abspath ''caller.py'' [''foo'' \<mapsto> ''/w/helper.py'']"
  let ?seq = "ExecutionFlowVisitor_seq example_abspath ''caller.py'' Map.empty"
  have g: "get_func_name (Name ''foo'') = Some ''foo''" by (simp add: get_func_name_def)
  have k: "''Foo'' \<noteq> ''foo''" by simp
  from name_resolution_exact [where ident = "''foo''" and base = "''a''" and attrs = "[''b'', ''c'']"
      and func = "Name ''foo''" and func_name = "''foo''" and st = ?none and sst = ?seq
      and key = "''Foo''" and other = "''/w/worker.py''" and c = 0] g
  have 1: "get_func_name (Attribute (Attribute (Name ''a'') ''b'') ''c'') = Some ''a.b.c''"
    and 2: "function_calls (visit_Call (Name ''foo'') ?none) = []"
    by (simp_all add: ExecutionFlowVisitor_def)
  from name_resolution_exact [where ident = "''foo''" and base = "''a''" and attrs = "[''b'', ''c'']"
      and func = "Name ''foo''" and func_name = "''foo''" and st = ?some and sst = ?seq
      and key = "''Foo''" and other = "''/w/worker.py''" and c = 0] g k
  have 3: "function_calls (visit_Call (Name ''foo'') ?some) = [(''/w/caller.py'', ''/w/helper.py'')]"
    and 4: "function_calls
         (visit_Call (Name ''foo'')
            (?some\<lparr>func_to_file := (func_to_file ?some)(''Foo'' \<mapsto> ''/w/worker.py'')\<rparr>))
       = function_calls (visit_Call (Name ''foo'') ?some)"
    by (simp_all add: ExecutionFlowVisitor_def example_abspath_def set_add_def)
  from g k 1 2 3 4 show ?thesis by simp
qed


section \<open>The class context\<close>


lemma visit_functions_mono:
  assumes "visit d n st = Inr st'"
  shows "set (functions_set st) \<subseteq> set (functions_set st')"
proof -
  define I where "I s \<longleftrightarrow> set (functions_set st) \<subseteq> set (functions_set s)" for s :: visitor
  have "I st" by (simp add: I_def)
  then have "I st'"
    by (rule visit_invariant(1) [of I, rotated -2, OF _ assms]) (auto simp: I_def)
  then show ?thesis by (simp add: I_def)
qed








section \<open>Invariants of a traversal\<close>

lemma visit_Call_calls_ok:
  "calls_ok (filename st) (func_to_file st) (function_calls st) \<Longrightarrow>
   calls_ok (filename st) (func_to_file st) (function_calls (visit_Call f st))"
  by (auto simp: visit_Call_def find_callee_file_def Let_def calls_ok_def ran_def
      split: option.splits)

lemma visit_calls_ok:
  assumes "calls_ok (filename st) (func_to_file st) (function_calls st)"
    and "visit d n st = Inr st'"
  shows "calls_ok (filename st) (func_to_file st) (function_calls st')"
proof -
  define I where "I s \<longleftrightarrow> filename s = filename st \<and> func_to_file s = func_to_file st
      \<and> calls_ok (filename st) (func_to_file st) (function_calls s)" for s :: visitor
  have c: "I (visit_Call f s)" if "I s" for f s
    using that visit_Call_calls_ok [of s f] by (simp add: I_def)
  have "I st" using assms(1) by (simp add: I_def)
  then have "I st'"
    by (rule visit_invariant(1) [of I, OF c, rotated -2, OF _ assms(2)]) (simp_all add: I_def)
  then show ?thesis by (simp add: I_def)
qed

lemma parse_file_calls_ok:
  assumes "parse_file abspath ast_parse recursion_limit p ftf = Inr v"
  shows "filename v = abspath p \<and> func_to_file v = ftf
         \<and> calls_ok (abspath p) ftf (function_calls v)"
proof -
  let ?st = "ExecutionFlowVisitor abspath p ftf"
  from assms obtain tree where v: "visit recursion_limit tree ?st = Inr v"
    by (auto simp: parse_file_def split: sum.splits)
  have "calls_ok (filename ?st) (func_to_file ?st) (function_calls ?st)"
    by (simp add: ExecutionFlowVisitor_def calls_ok_def)
  from visit_calls_ok [OF this v] visit_frame [OF v] show ?thesis
    by (simp add: ExecutionFlowVisitor_def)
qed





text \<open>The same for the sequenced script, where the state includes the counter.\<close>

lemma visit_Call_seq_frame [simp]:
  "filename (snd (visit_Call_seq f cs)) = filename (snd cs)"
  "func_to_file (snd (visit_Call_seq f cs)) = func_to_file (snd cs)"
  by (cases cs; simp add: visit_Call_seq_def Let_def split: option.splits)+

lemma visit_seq_invariant:
  assumes "\<And>f cs. I cs \<Longrightarrow> I (visit_Call_seq f cs)"
    and "\<And>ns c s. I (c, s) \<Longrightarrow> I (c, visit_Import ns s)"
    and "\<And>m ns c s. I (c, s) \<Longrightarrow> I (c, visit_ImportFrom m ns s)"
    and "\<And>name c s. I (c, s) \<Longrightarrow> I (c, s\<lparr>functions_set := set_add name (functions_set s)\<rparr>)"
    and "\<And>name c s. I (c, s) \<Longrightarrow>
           I (c, s\<lparr>classes := set_add name (classes s), current_class := Some name\<rparr>)"
    and "\<And>c s. I (c, s) \<Longrightarrow> I (c, s\<lparr>current_class := None\<rparr>)"
  shows "I cs \<Longrightarrow> visit_seq d n cs = Inr cs' \<Longrightarrow> I cs'"
    and "I cs \<Longrightarrow> generic_visit_seq d ns cs = Inr cs' \<Longrightarrow> I cs'"
proof (induction d n cs and d ns cs arbitrary: cs' and cs'
    rule: visit_seq_generic_visit_seq.induct)
  case (1 d ident cs)
  then show ?case by (simp split: if_splits)
next
  case (2 d v attr cs)
  then show ?case by (simp split: if_splits)
next
  case (3 d func args cs)
  from 3(4) obtain cs1 where d: "d \<noteq> 0"
    and a: "visit_seq (d - 1) func (visit_Call_seq func cs) = Inr cs1"
    and b: "generic_visit_seq (d - 1) args cs1 = Inr cs'"
    by (auto split: if_splits sum.splits)
  have "I (visit_Call_seq func cs)" using 3(3) by (rule assms(1))
  from 3(1) [OF d this a] have "I cs1" .
  from 3(2) [OF d a this b] show ?case .
next
  case (4 d names cs)
  from 4(2) have r: "cs' = (fst cs, visit_Import names (snd cs))" by (auto split: if_splits)
  have "I (fst cs, snd cs)" using 4(1) by simp
  then show ?case unfolding r by (rule assms(2))
next
  case (5 d module names cs)
  from 5(2) have r: "cs' = (fst cs, visit_ImportFrom module names (snd cs))"
    by (auto split: if_splits)
  have "I (fst cs, snd cs)" using 5(1) by simp
  then show ?case unfolding r by (rule assms(3))
next
  case (6 d name children cs)
  let ?s1 = "(fst cs, if current_class (snd cs) = None
                      then (snd cs)\<lparr>functions_set := set_add name (functions_set (snd cs))\<rparr>
                      else snd cs)"
  from 6(3) have d: "d \<noteq> 0" and a: "generic_visit_seq (d - 1) children ?s1 = Inr cs'"
    by (auto split: if_splits)
  have "I (fst cs, snd cs)" using 6(2) by simp
  then have "I ?s1" using assms(4) [of "fst cs" "snd cs" name] by simp
  from 6(1) [OF d this a] show ?case .
next
  case (7 d name pre body post cs)
  let ?s0 = "(fst cs, (snd cs)\<lparr>classes := set_add name (classes (snd cs)),
                                 current_class := Some name\<rparr>)"
  from 7(5) obtain cs1 cs2 cs3 where d: "d \<noteq> 0"
    and a: "generic_visit_seq (d - 1) pre ?s0 = Inr cs1"
    and b: "generic_visit_seq (d - 1) body cs1 = Inr cs2"
    and c: "generic_visit_seq (d - 1) post cs2 = Inr cs3"
    and r: "cs' = (fst cs3, (snd cs3)\<lparr>current_class := None\<rparr>)"
    by (auto split: if_splits sum.splits)
  have "I (fst cs, snd cs)" using 7(4) by simp
  then have "I ?s0" by (rule assms(5))
  from 7(1) [OF d this a] have "I cs1" .
  from 7(2) [OF d a this b] have "I cs2" .
  from 7(3) [OF d a b this c] have "I cs3" .
  then have "I (fst cs3, snd cs3)" by simp
  then show ?case unfolding r by (rule assms(6))
next
  case (8 d children cs)
  then show ?case by (simp split: if_splits)
next
  case (9 d cs)
  then show ?case by simp
next
  case (10 d n ns cs)
  from 10(4) obtain cs1 where a: "visit_seq d n cs = Inr cs1"
    and b: "generic_visit_seq d ns cs1 = Inr cs'"
    by (auto split: sum.splits)
  from 10(1) [OF 10(3) a] have "I cs1" .
  from 10(2) [OF a this b] show ?case .
qed

lemma upto_snoc: "(c0::int) \<le> c \<Longrightarrow> [c0 + 1..c + 1] = [c0 + 1..c] @ [c + 1]"
  using upto_rec2 [of "c0 + 1" "c + 1"] by simp

lemma visit_Call_seq_stamped:
  "stamped file ftf c0 cs \<Longrightarrow> stamped file ftf c0 (visit_Call_seq f cs)"
  by (cases cs)
     (auto simp: visit_Call_seq_def find_callee_file_def Let_def stamped_def calls_seq_ok_def
        ran_def upto_snoc split: option.splits)

lemma visit_seq_stamped:
  assumes "stamped file ftf c0 cs" and "visit_seq d n cs = Inr cs'"
  shows "stamped file ftf c0 cs'"
  using assms(1)
proof (rule visit_seq_invariant(1) [of "stamped file ftf c0", rotated -2, OF _ assms(2)])
  fix f cs assume "stamped file ftf c0 cs"
  then show "stamped file ftf c0 (visit_Call_seq f cs)" by (rule visit_Call_seq_stamped)
qed (simp_all add: stamped_def visit_Import_def visit_ImportFrom_def)

lemma parse_file_seq_stamped:
  assumes "parse_file_seq abspath ast_parse recursion_limit p ftf c = Inr (c1, v)"
  shows "stamped (abspath p) ftf c (c1, v)"
proof -
  from assms obtain tree where
    v: "visit_seq recursion_limit tree (c, ExecutionFlowVisitor_seq abspath p ftf) = Inr (c1, v)"
    by (auto simp: parse_file_seq_def split: sum.splits)
  have "stamped (abspath p) ftf c (c, ExecutionFlowVisitor_seq abspath p ftf)"
    by (simp add: stamped_def ExecutionFlowVisitor_seq_def calls_seq_ok_def)
  from visit_seq_stamped [OF this v] show ?thesis .
qed


section \<open>Invariants of the analysis\<close>

lemma update_set:
  "(k', v') \<in> set (AList.update k v al) \<Longrightarrow> (k', v') = (k, v) \<or> (k', v') \<in> set al"
  by (induction al) (auto split: if_splits)

lemma update_fresh: "k \<notin> fst ` set al \<Longrightarrow> AList.update k v al = al @ [(k, v)]"
  by (induction al) auto

lemma analyze_loop_invariant:
  assumes "analyze_loop abspath ast_parse recursion_limit ftf ps vs = Inr vs'"
    and "\<And>k v. (k, v) \<in> set vs \<Longrightarrow> P k v"
    and "\<And>p v. p \<in> set ps \<Longrightarrow> parse_file abspath ast_parse recursion_limit p ftf = Inr v \<Longrightarrow> P (abspath p) v"
    and "(k, v) \<in> set vs'"
  shows "P k v"
  using assms
proof (induction ps arbitrary: vs)
  case Nil
  then show ?case by simp
next
  case (Cons p ps)
  from Cons.prems(1) obtain w where w: "parse_file abspath ast_parse recursion_limit p ftf = Inr w"
    and rest: "analyze_loop abspath ast_parse recursion_limit ftf ps (AList.update (abspath p) w vs) = Inr vs'"
    by (auto split: sum.splits)
  show ?case
  proof (rule Cons.IH [OF rest _ _ Cons.prems(4)])
    fix k' v' assume "(k', v') \<in> set (AList.update (abspath p) w vs)"
    then show "P k' v'" using update_set Cons.prems(2) Cons.prems(3) [of p w] w by fastforce
  next
    fix q u assume "q \<in> set ps" "parse_file abspath ast_parse recursion_limit q ftf = Inr u"
    then show "P (abspath q) u" using Cons.prems(3) by simp
  qed
qed

lemma analyze_loop_seq_invariant:
  assumes "analyze_loop_seq abspath ast_parse recursion_limit ftf ps (c, vs) = Inr (c', vs')"
    and "\<And>k v. (k, v) \<in> set vs \<Longrightarrow> P k v"
    and "\<And>p c c1 v. p \<in> set ps \<Longrightarrow> parse_file_seq abspath ast_parse recursion_limit p ftf c = Inr (c1, v)
           \<Longrightarrow> P (abspath p) v"
    and "(k, v) \<in> set vs'"
  shows "P k v"
  using assms
proof (induction ps arbitrary: c vs)
  case Nil
  then show ?case by simp
next
  case (Cons p ps)
  from Cons.prems(1) obtain c1 w where
    w: "parse_file_seq abspath ast_parse recursion_limit p ftf c = Inr (c1, w)"
    and rest: "analyze_loop_seq abspath ast_parse recursion_limit ftf ps (c1, AList.update (abspath p) w vs)
               = Inr (c', vs')"
    by (auto split: sum.splits)
  show ?case
  proof (rule Cons.IH [OF rest _ _ Cons.prems(4)])
    fix k' v' assume "(k', v') \<in> set (AList.update (abspath p) w vs)"
    then show "P k' v'" using update_set Cons.prems(2) Cons.prems(3) [of p c c1 w] w by fastforce
  next
    fix q d d1 u assume "q \<in> set ps" "parse_file_seq abspath ast_parse recursion_limit q ftf d = Inr (d1, u)"
    then show "P (abspath q) u" using Cons.prems(3) [of q d d1 u] by simp
  qed
qed

lemma analyze_loop_keys:
  "analyze_loop abspath ast_parse recursion_limit ftf ps vs = Inr vs' \<Longrightarrow>
   fst ` set vs' = fst ` set vs \<union> abspath ` set ps
   \<and> (distinct (map fst vs) \<longrightarrow> distinct (map fst vs'))"
proof (induction ps arbitrary: vs)
  case Nil
  then show ?case by simp
next
  case (Cons p ps)
  from Cons.prems obtain w where
    r: "analyze_loop abspath ast_parse recursion_limit ftf ps (AList.update (abspath p) w vs) = Inr vs'"
    by (auto split: sum.splits)
  from Cons.IH [OF r] show ?case
    by (auto simp: dom_update distinct_update)
qed

lemma analyze_loop_seq_keys:
  "analyze_loop_seq abspath ast_parse recursion_limit ftf ps (c, vs) = Inr (c', vs') \<Longrightarrow>
   fst ` set vs' = fst ` set vs \<union> abspath ` set ps"
proof (induction ps arbitrary: c vs)
  case Nil
  then show ?case by simp
next
  case (Cons p ps)
  from Cons.prems obtain c1 w where
    r: "analyze_loop_seq abspath ast_parse recursion_limit ftf ps (c1, AList.update (abspath p) w vs) = Inr (c', vs')"
    by (auto split: sum.splits)
  from Cons.IH [OF r] show ?case
    by (auto simp: dom_update)
qed


text \<open>Every value of the symbol table is the absolute path of a file of the run.\<close>

lemma ran_upd_subset: "ran (m(k \<mapsto> v)) \<subseteq> insert v (ran m)"
  by (auto simp: ran_def)

lemma record_method_ran: "ran (record_method file cn m b) \<subseteq> insert file (ran m)"
  using ran_upd_subset [of m _ "file"] by (cases b) (auto simp: record_method_def)

lemma foldl_record_method_ran: "ran (foldl (record_method file cn) m body) \<subseteq> insert file (ran m)"
proof (induction body arbitrary: m)
  case Nil
  then show ?case by auto
next
  case (Cons b body)
  from Cons.IH [of "record_method file cn m b"] record_method_ran [of "file" cn m b]
  show ?case by auto
qed

lemma record_node_ran: "ran (record_node file m n) \<subseteq> insert file (ran m)"
proof (cases n)
  case (FunctionDef name ch)
  then show ?thesis using ran_upd_subset [of m name "file"] by (simp add: record_node_def)
next
  case (ClassDef name pre body post)
  from foldl_record_method_ran [of "file" name "m(name \<mapsto> file)" body]
    ran_upd_subset [of m name "file"]
  show ?thesis by (auto simp: record_node_def ClassDef)
qed (simp_all add: record_node_def subset_insertI)

lemma foldl_record_node_ran: "ran (foldl (record_node file) m ns) \<subseteq> insert file (ran m)"
proof (induction ns arbitrary: m)
  case Nil
  then show ?case by auto
next
  case (Cons n ns)
  from Cons.IH [of "record_node file m n"] record_node_ran [of "file" m n]
  show ?case by auto
qed

lemma build_loop_ran:
  "build_loop abspath ast_parse ps m = Inr ftf \<Longrightarrow> ran ftf \<subseteq> ran m \<union> abspath ` set ps"
proof (induction ps arbitrary: m)
  case Nil
  then show ?case by simp
next
  case (Cons p ps)
  from Cons.prems obtain tree where
    r: "build_loop abspath ast_parse ps (foldl (record_node (abspath p)) m (walk tree)) = Inr ftf"
    by (auto split: sum.splits)
  from Cons.IH [OF r] foldl_record_node_ran [of "abspath p" m "walk tree"]
  show ?case by auto
qed

lemma build_function_to_file_map_ran:
  "build_function_to_file_map abspath ast_parse ps = Inr ftf \<Longrightarrow> ran ftf \<subseteq> abspath ` set ps"
  using build_loop_ran [of abspath ast_parse ps Map.empty ftf]
  by (simp add: build_function_to_file_map_def)


section \<open>The two passes\<close>

text \<open>
  C6: when \<open>analyze_project\<close> returns, \<open>build_function_to_file_map\<close> has returned the
  table for the whole list of files, every visitor holds exactly that table after its
  traversal, and no visit of any node from any state changes the table a visitor holds:
  the table is complete before the first file is analysed and only read afterwards.
\<close>

theorem table_frozen_before_resolution:
  assumes "analyze_project abspath ast_parse recursion_limit py_files = Inr visitors"
  shows "\<exists>ftf. build_function_to_file_map abspath ast_parse py_files = Inr ftf
           \<and> (\<forall>(k, v) \<in> set visitors. func_to_file v = ftf)
           \<and> (\<forall>d n st st'. visit d n st = Inr st' \<longrightarrow> func_to_file st' = func_to_file st)"
proof -
  from assms obtain ftf where
    b: "build_function_to_file_map abspath ast_parse py_files = Inr ftf"
    and l: "analyze_loop abspath ast_parse recursion_limit ftf py_files [] = Inr visitors"
    by (auto simp: analyze_project_def split: sum.splits)
  have "func_to_file v = ftf" if "(k, v) \<in> set visitors" for k v
  proof (rule analyze_loop_invariant [OF l _ _ that])
    fix p w assume "parse_file abspath ast_parse recursion_limit p ftf = Inr w"
    then show "func_to_file w = ftf"
      using parse_file_calls_ok by blast
  qed simp
  moreover have "\<forall>d n st st'. visit d n st = Inr st' \<longrightarrow> func_to_file st' = func_to_file st"
    using visit_frame by blast
  ultimately show ?thesis using b by auto
qed


text \<open>The theorem at the run over \<open>worker.py\<close> and \<open>caller.py\<close>.\<close>

theorem table_frozen_before_resolution_witness:
  "\<exists>visitors.
     analyze_project example_abspath example_parse 1000 [''worker.py'', ''caller.py''] = Inr visitors
     \<and> (\<exists>ftf. build_function_to_file_map example_abspath example_parse
                 [''worker.py'', ''caller.py''] = Inr ftf
              \<and> (\<forall>(k, v) \<in> set visitors. func_to_file v = ftf)
              \<and> (\<forall>d n st st'. visit d n st = Inr st'
                    \<longrightarrow> func_to_file st' = func_to_file st))"
proof -
  have "(case analyze_project example_abspath example_parse 1000 [''worker.py'', ''caller.py''] of
           Inl e \<Rightarrow> False | Inr vs \<Rightarrow> True)"
    by code_simp
  then obtain visitors where
    v: "analyze_project example_abspath example_parse 1000 [''worker.py'', ''caller.py''] = Inr visitors"
    by (auto split: sum.splits)
  from table_frozen_before_resolution [OF v] v show ?thesis by blast
qed


section \<open>Self loops\<close>

text \<open>
  C7: in both scripts, no call recorded by any visitor of a run has the same caller
  file and callee file: \<open>visit_Call\<close> records a call only when the file found in the
  table differs from the visitor's own.
\<close>

theorem no_self_loops:
  "(analyze_project abspath ast_parse recursion_limit py_files = Inr visitors \<longrightarrow>
      (\<forall>(k, v) \<in> set visitors. \<forall>(caller_file, callee_file) \<in> set (function_calls v).
         caller_file \<noteq> callee_file))
   \<and> (analyze_project_seq abspath ast_parse recursion_limit py_files c = Inr (c', visitors') \<longrightarrow>
      (\<forall>(k, v) \<in> set visitors'.
         \<forall>(seq_num, caller_file, callee_file) \<in> set (calls_with_sequence v).
           caller_file \<noteq> callee_file))"
proof (intro conjI impI)
  assume a: "analyze_project abspath ast_parse recursion_limit py_files = Inr visitors"
  then obtain ftf where l: "analyze_loop abspath ast_parse recursion_limit ftf py_files [] = Inr visitors"
    by (auto simp: analyze_project_def split: sum.splits)
  have "calls_ok k ftf (function_calls v)" if "(k, v) \<in> set visitors" for k v
  proof (rule analyze_loop_invariant [OF l _ _ that])
    fix p w assume "parse_file abspath ast_parse recursion_limit p ftf = Inr w"
    then show "calls_ok (abspath p) ftf (function_calls w)"
      using parse_file_calls_ok by blast
  qed simp
  then show "\<forall>(k, v) \<in> set visitors. \<forall>(caller_file, callee_file) \<in> set (function_calls v).
         caller_file \<noteq> callee_file"
    by (fastforce simp: calls_ok_def)
next
  assume a: "analyze_project_seq abspath ast_parse recursion_limit py_files c = Inr (c', visitors')"
  then obtain ftf where
    l: "analyze_loop_seq abspath ast_parse recursion_limit ftf py_files (c, []) = Inr (c', visitors')"
    by (auto simp: analyze_project_seq_def split: sum.splits)
  have "calls_seq_ok k ftf (calls_with_sequence v)" if "(k, v) \<in> set visitors'" for k v
  proof (rule analyze_loop_seq_invariant [OF l _ _ that])
    fix p d d1 w assume "parse_file_seq abspath ast_parse recursion_limit p ftf d = Inr (d1, w)"
    then show "calls_seq_ok (abspath p) ftf (calls_with_sequence w)"
      using parse_file_seq_stamped [of abspath ast_parse recursion_limit p ftf d d1 w] by (simp add: stamped_def)
  qed simp
  then show "\<forall>(k, v) \<in> set visitors'.
         \<forall>(seq_num, caller_file, callee_file) \<in> set (calls_with_sequence v).
           caller_file \<noteq> callee_file"
    by (fastforce simp: calls_seq_ok_def)
qed


text \<open>The theorem at the run over \<open>worker.py\<close> and \<open>caller.py\<close>, in both scripts.\<close>

theorem no_self_loops_witness:
  "\<exists>visitors c' visitors'.
     analyze_project example_abspath example_parse 1000 [''worker.py'', ''caller.py''] = Inr visitors
     \<and> (\<forall>(k, v) \<in> set visitors. \<forall>(caller_file, callee_file) \<in> set (function_calls v).
           caller_file \<noteq> callee_file)
     \<and> analyze_project_seq example_abspath example_parse 1000 [''worker.py'', ''caller.py''] 0
         = Inr (c', visitors')
     \<and> (\<forall>(k, v) \<in> set visitors'.
           \<forall>(seq_num, caller_file, callee_file) \<in> set (calls_with_sequence v).
             caller_file \<noteq> callee_file)"
proof -
  let ?files = "[''worker.py'', ''caller.py'']"
  have "(case analyze_project example_abspath example_parse 1000 ?files of
           Inl e \<Rightarrow> False | Inr vs \<Rightarrow> True)"
    by code_simp
  then obtain visitors where
    1: "analyze_project example_abspath example_parse 1000 ?files = Inr visitors"
    by (auto split: sum.splits)
  have "(case analyze_project_seq example_abspath example_parse 1000 ?files 0 of
           Inl e \<Rightarrow> False | Inr cvs \<Rightarrow> True)"
    by code_simp
  then obtain c' visitors' where
    2: "analyze_project_seq example_abspath example_parse 1000 ?files 0 = Inr (c', visitors')"
    by (auto split: sum.splits)
  from no_self_loops [of example_abspath example_parse 1000 ?files visitors 0 c' visitors'] 1 2
  show ?thesis by blast
qed


section \<open>Edges of the diagram\<close>

lemma dot_node_edges: "edges (foldl (\<lambda>d kv. dot_node (fst kv) d) dot vs) = edges dot"
  by (induction vs arbitrary: dot) (simp_all add: dot_node_def)

lemma import_step_edges:
  "import_step abspath find_spec vs imp dot = Inr dot' \<Longrightarrow>
   \<exists>es. edges dot' = edges dot @ es \<and> (\<forall>e \<in> set es. label e = ''imports'' \<and> color e = ''blue'')"
  by (cases imp) (auto simp: import_step_def dot_edge_def split: sum.splits option.splits if_splits)

lemma import_loop_edges:
  "import_loop abspath find_spec vs imps dot = Inr dot' \<Longrightarrow>
   \<exists>es. edges dot' = edges dot @ es \<and> (\<forall>e \<in> set es. label e = ''imports'' \<and> color e = ''blue'')"
proof (induction imps arbitrary: dot)
  case Nil
  then show ?case by simp
next
  case (Cons imp imps)
  from Cons.prems obtain d1 where
    s: "import_step abspath find_spec vs imp dot = Inr d1"
    and r: "import_loop abspath find_spec vs imps d1 = Inr dot'"
    by (auto split: sum.splits)
  from import_step_edges [OF s] obtain es1 where
    1: "edges d1 = edges dot @ es1" "\<forall>e \<in> set es1. label e = ''imports'' \<and> color e = ''blue''"
    by blast
  from Cons.IH [OF r] obtain es2 where
    2: "edges dot' = edges d1 @ es2" "\<forall>e \<in> set es2. label e = ''imports'' \<and> color e = ''blue''"
    by blast
  have "edges dot' = edges dot @ (es1 @ es2)" using 1 2 by simp
  moreover have "\<forall>e \<in> set (es1 @ es2). label e = ''imports'' \<and> color e = ''blue''"
    using 1 2 by auto
  ultimately show ?case by blast
qed

lemma import_edges_edges:
  "import_edges abspath find_spec vs rest dot = Inr dot' \<Longrightarrow>
   \<exists>es. edges dot' = edges dot @ es \<and> (\<forall>e \<in> set es. label e = ''imports'' \<and> color e = ''blue'')"
proof (induction rest arbitrary: dot)
  case Nil
  then show ?case by simp
next
  case (Cons kv rest)
  from Cons.prems obtain d1 where
    s: "import_loop abspath find_spec vs (imports_set (snd kv)) dot = Inr d1"
    and r: "import_edges abspath find_spec vs rest d1 = Inr dot'"
    by (auto split: sum.splits)
  from import_loop_edges [OF s] obtain es1 where
    1: "edges d1 = edges dot @ es1" "\<forall>e \<in> set es1. label e = ''imports'' \<and> color e = ''blue''"
    by blast
  from Cons.IH [OF r] obtain es2 where
    2: "edges dot' = edges d1 @ es2" "\<forall>e \<in> set es2. label e = ''imports'' \<and> color e = ''blue''"
    by blast
  have "edges dot' = edges dot @ (es1 @ es2)" using 1 2 by simp
  moreover have "\<forall>e \<in> set (es1 @ es2). label e = ''imports'' \<and> color e = ''blue''"
    using 1 2 by auto
  ultimately show ?case by blast
qed

lemma call_step_foldl:
  "edges (foldl (call_step vs) dot calls)
   = edges dot @ map call_edge (filter (\<lambda>c. snd c \<noteq> [] \<and> in_visitors (snd c) vs) calls)"
  by (induction calls arbitrary: dot) (auto simp: call_step_def dot_edge_def call_edge_def)

lemma call_edges_edges:
  "edges (foldl (\<lambda>d kv. foldl (call_step vs) d (function_calls (snd kv))) dot ws)
   = edges dot @ map call_edge (filter (\<lambda>c. snd c \<noteq> [] \<and> in_visitors (snd c) vs)
        (concat (map (\<lambda>kv. function_calls (snd kv)) ws)))"
  by (induction ws arbitrary: dot) (simp_all add: call_step_foldl)

lemma call_step_seq_foldl:
  "edges (foldl (call_step_seq vs) dot calls)
   = edges dot @ map seq_edge (filter (\<lambda>c. snd (snd c) \<noteq> [] \<and> in_visitors (snd (snd c)) vs) calls)"
  by (induction calls arbitrary: dot) (auto simp: call_step_seq_def dot_edge_def seq_edge_def)


text \<open>
  C8, as the code has it: an import whose module \<open>find_spec\<close> does not find (it raises
  \<open>ModuleNotFoundError\<close>, which \<open>find_source_file\<close> catches, or returns \<open>None\<close>), whose
  spec has no origin or an origin that is not a \<open>.py\<close> file, or whose file is not a key
  of \<open>visitors\<close>, leaves the graph as it was and raises nothing. Any other exception of
  \<open>find_spec\<close> is not caught: it leaves \<open>find_source_file\<close> and the loop over the
  imports.
\<close>

theorem unresolved_import_dropped:
  "(find_spec imported_module = Inl ModuleNotFoundError
     \<or> find_spec imported_module = Inr None
     \<or> (\<exists>spec. find_spec imported_module = Inr (Some spec)
          \<and> (origin spec = None
             \<or> (\<exists>orig. origin spec = Some orig
                  \<and> (\<not> endswith orig ''.py'' \<or> \<not> in_visitors (abspath orig) visitors))))
    \<longrightarrow> import_step abspath find_spec visitors (importer_file, imported_module) dot = Inr dot)
   \<and> (find_spec imported_module = Inl e \<and> e \<noteq> ModuleNotFoundError
    \<longrightarrow> find_source_file abspath find_spec imported_module = Inl e
        \<and> import_step abspath find_spec visitors (importer_file, imported_module) dot = Inl e)"
  by (auto simp: import_step_def find_source_file_def split: sum.splits option.splits error.splits)


text \<open>
  The theorem at \<open>import os\<close> in \<open>caller.py\<close>, where the module resolves to a file
  outside the analysed set, and at \<open>import __main__\<close>, where \<open>find_spec\<close> raises
  \<open>ValueError\<close>.
\<close>

theorem unresolved_import_dropped_witness:
  "example_find_spec ''os'' = Inr (Some (ModuleSpec (Some ''/usr/lib/python3/os.py'')))
   \<and> in_visitors (example_abspath ''/usr/lib/python3/os.py'') [(''/w/caller.py'', ())] = False
   \<and> import_step example_abspath example_find_spec [(''/w/caller.py'', ())]
        (''/w/caller.py'', ''os'') \<lparr>nodes = [''/w/caller.py''], edges = []\<rparr>
      = Inr \<lparr>nodes = [''/w/caller.py''], edges = []\<rparr>
   \<and> example_find_spec ''__main__''
      = Inl (OtherException ''ValueError: __main__.__spec__ is None'')
   \<and> OtherException ''ValueError: __main__.__spec__ is None'' \<noteq> ModuleNotFoundError
   \<and> import_step example_abspath example_find_spec [(''/w/caller.py'', ())]
        (''/w/caller.py'', ''__main__'') \<lparr>nodes = [''/w/caller.py''], edges = []\<rparr>
      = Inl (OtherException ''ValueError: __main__.__spec__ is None'')"
proof -
  have 1: "example_find_spec ''os'' = Inr (Some (ModuleSpec (Some ''/usr/lib/python3/os.py'')))"
    by (simp add: example_find_spec_def)
  have 2: "\<not> in_visitors (example_abspath ''/usr/lib/python3/os.py'') [(''/w/caller.py'', ())]"
    by (simp add: in_visitors_def example_abspath_def)
  have 3: "example_find_spec ''os'' = Inl ModuleNotFoundError
     \<or> example_find_spec ''os'' = Inr None
     \<or> (\<exists>spec. example_find_spec ''os'' = Inr (Some spec)
          \<and> (origin spec = None
             \<or> (\<exists>orig. origin spec = Some orig
                  \<and> (\<not> endswith orig ''.py''
                      \<or> \<not> in_visitors (example_abspath orig) [(''/w/caller.py'', ())]))))"
    using 1 2 by simp
  have 4: "example_find_spec ''__main__''
           = Inl (OtherException ''ValueError: __main__.__spec__ is None'')"
    by (simp add: example_find_spec_def)
  have 5: "OtherException ''ValueError: __main__.__spec__ is None'' \<noteq> ModuleNotFoundError"
    by simp
  from unresolved_import_dropped [where find_spec = example_find_spec
      and imported_module = "''os''" and abspath = example_abspath
      and visitors = "[(''/w/caller.py'', ())]" and importer_file = "''/w/caller.py''"
      and dot = "\<lparr>nodes = [''/w/caller.py''], edges = []\<rparr>"] 3
  have 6: "import_step example_abspath example_find_spec [(''/w/caller.py'', ())]
        (''/w/caller.py'', ''os'') \<lparr>nodes = [''/w/caller.py''], edges = []\<rparr>
      = Inr \<lparr>nodes = [''/w/caller.py''], edges = []\<rparr>"
    by blast
  from unresolved_import_dropped [where find_spec = example_find_spec
      and imported_module = "''__main__''" and abspath = example_abspath
      and visitors = "[(''/w/caller.py'', ())]" and importer_file = "''/w/caller.py''"
      and dot = "\<lparr>nodes = [''/w/caller.py''], edges = []\<rparr>"
      and e = "OtherException ''ValueError: __main__.__spec__ is None''"] 4 5
  have 7: "import_step example_abspath example_find_spec [(''/w/caller.py'', ())]
        (''/w/caller.py'', ''__main__'') \<lparr>nodes = [''/w/caller.py''], edges = []\<rparr>
      = Inl (OtherException ''ValueError: __main__.__spec__ is None'')"
    by blast
  from 1 2 4 5 6 7 show ?thesis by simp
qed


text \<open>
  C8 as stated fails: \<open>selfimport.py\<close> imports \<open>__main__\<close>, which resolves to no file,
  and both scripts end with the \<open>ValueError\<close> of \<open>find_spec\<close> instead of a graph.
\<close>

theorem unresolved_import_counterexample:
  "example_parse ''selfimport.py'' = Inr (Other [Import [''__main__'']])
   \<and> example_find_spec ''__main__''
      = Inl (OtherException ''ValueError: __main__.__spec__ is None'')
   \<and> main example_abspath example_parse example_find_spec 1000 [''selfimport.py'']
      = Inl (OtherException ''ValueError: __main__.__spec__ is None'')
   \<and> main_seq example_abspath example_parse example_find_spec 1000 [''selfimport.py'']
      = Inl (OtherException ''ValueError: __main__.__spec__ is None'')"
  by code_simp


section \<open>Sequence numbers\<close>

lemma upto_append: "(c0::int) \<le> c \<Longrightarrow> c \<le> c1 \<Longrightarrow> [c0 + 1..c] @ [c + 1..c1] = [c0 + 1..c1]"
proof (cases "c0 = c")
  case True
  then show ?thesis by simp
next
  case False
  assume "c0 \<le> c" "c \<le> c1"
  with False have "c0 + 1 \<le> c" by simp
  from upto_split2 [OF this \<open>c \<le> c1\<close>] show ?thesis by simp
qed

lemma analyze_loop_seq_stamps:
  assumes "analyze_loop_seq abspath ast_parse recursion_limit ftf ps (c, vs) = Inr (c', vs')"
    and "distinct (map abspath ps)"
    and "set (map abspath ps) \<inter> fst ` set vs = {}"
    and "map fst (concat (map (\<lambda>kv. calls_with_sequence (snd kv)) vs)) = [c0 + 1..c]"
    and "c0 \<le> c"
  shows "map fst (concat (map (\<lambda>kv. calls_with_sequence (snd kv)) vs')) = [c0 + 1..c']
         \<and> c \<le> c' \<and> map fst vs' = map fst vs @ map abspath ps"
  using assms
proof (induction ps arbitrary: c vs)
  case Nil
  then show ?case by simp
next
  case (Cons p ps)
  from Cons.prems(1) obtain c1 w where
    w: "parse_file_seq abspath ast_parse recursion_limit p ftf c = Inr (c1, w)"
    and rest: "analyze_loop_seq abspath ast_parse recursion_limit ftf ps (c1, AList.update (abspath p) w vs)
               = Inr (c', vs')"
    by (auto split: sum.splits)
  from parse_file_seq_stamped [OF w] have
    st: "map fst (calls_with_sequence w) = [c + 1..c1]" and le: "c \<le> c1"
    by (simp_all add: stamped_def)
  have fresh: "abspath p \<notin> fst ` set vs" using Cons.prems(3) by auto
  have upd: "AList.update (abspath p) w vs = vs @ [(abspath p, w)]"
    using fresh by (rule update_fresh)
  have 1: "distinct (map abspath ps)" using Cons.prems(2) by simp
  have 2: "set (map abspath ps) \<inter> fst ` set (AList.update (abspath p) w vs) = {}"
    using Cons.prems(2,3) by (auto simp: upd)
  have 3: "map fst (concat (map (\<lambda>kv. calls_with_sequence (snd kv))
              (AList.update (abspath p) w vs))) = [c0 + 1..c1]"
    using Cons.prems(4) st upto_append [OF Cons.prems(5) le] by (simp add: upd)
  have 4: "c0 \<le> c1" using Cons.prems(5) le by simp
  from Cons.IH [OF rest 1 2 3 4] le show ?case by (simp add: upd)
qed

lemma analyze_project_seq_facts:
  assumes "analyze_project_seq abspath ast_parse recursion_limit py_files c = Inr (c', visitors)"
  shows "\<forall>kv \<in> set visitors. \<forall>call \<in> set (calls_with_sequence (snd kv)).
           snd (snd call) \<noteq> [] \<and> in_visitors (snd (snd call)) visitors"
proof -
  from assms obtain ftf where
    b: "build_function_to_file_map abspath ast_parse py_files = Inr ftf"
    and l: "analyze_loop_seq abspath ast_parse recursion_limit ftf py_files (c, []) = Inr (c', visitors)"
    by (auto simp: analyze_project_seq_def split: sum.splits)
  have ok: "calls_seq_ok k ftf (calls_with_sequence v)" if "(k, v) \<in> set visitors" for k v
  proof (rule analyze_loop_seq_invariant [OF l _ _ that])
    fix p d d1 w assume "parse_file_seq abspath ast_parse recursion_limit p ftf d = Inr (d1, w)"
    then show "calls_seq_ok (abspath p) ftf (calls_with_sequence w)"
      using parse_file_seq_stamped [of abspath ast_parse recursion_limit p ftf d d1 w] by (simp add: stamped_def)
  qed simp
  have keys: "fst ` set visitors = abspath ` set py_files"
    using analyze_loop_seq_keys [OF l] by simp
  have ran: "ran ftf \<subseteq> abspath ` set py_files"
    using b by (rule build_function_to_file_map_ran)
  show ?thesis
  proof (intro ballI)
    fix kv call assume kv: "kv \<in> set visitors" and call: "call \<in> set (calls_with_sequence (snd kv))"
    from kv have "(fst kv, snd kv) \<in> set visitors" by simp
    from ok [OF this] call have "snd (snd call) \<noteq> []" "snd (snd call) \<in> ran ftf"
      by (auto simp: calls_seq_ok_def)
    with ran keys show "snd (snd call) \<noteq> [] \<and> in_visitors (snd (snd call)) visitors"
      by (auto simp: in_visitors_def)
  qed
qed

lemma create_execution_diagram_seq_edges:
  assumes "analyze_project_seq abspath ast_parse recursion_limit py_files c = Inr (c', visitors)"
    and "create_execution_diagram_seq abspath find_spec visitors = Inr g"
  shows "\<exists>es. edges g = map seq_edge (all_calls_with_sequence visitors) @ es
           \<and> (\<forall>e \<in> set es. label e = ''imports'' \<and> color e = ''blue'')"
proof -
  let ?dot = "foldl (\<lambda>d kv. dot_node (fst kv) d) \<lparr>nodes = [], edges = []\<rparr> visitors"
  let ?dot1 = "foldl (call_step_seq visitors) ?dot (all_calls_with_sequence visitors)"
  have "\<forall>call \<in> set (all_calls_with_sequence visitors).
          snd (snd call) \<noteq> [] \<and> in_visitors (snd (snd call)) visitors"
    using analyze_project_seq_facts [OF assms(1)] by (auto simp: all_calls_with_sequence_def)
  then have "filter (\<lambda>c. snd (snd c) \<noteq> [] \<and> in_visitors (snd (snd c)) visitors)
               (all_calls_with_sequence visitors) = all_calls_with_sequence visitors"
    by (simp add: filter_id_conv)
  then have 1: "edges ?dot1 = map seq_edge (all_calls_with_sequence visitors)"
    by (simp add: call_step_seq_foldl dot_node_edges)
  from assms(2) have "import_edges abspath find_spec visitors visitors ?dot1 = Inr g"
    by (simp add: create_execution_diagram_seq_def Let_def)
  from import_edges_edges [OF this] 1 show ?thesis by simp
qed


text \<open>
  C4: in the sequenced script, for a run over files with distinct absolute paths (as
  \<open>os.walk\<close> lists them) that starts with the counter at 0 and ends with it at \<open>n\<close>:
  the visitors are in the order of the files; the sequence numbers of all recorded
  calls, file after file and within a file in the order of its traversal, are
  \<open>1, 2, ..., n\<close>; sorting by sequence number leaves that list as it is; and the edges
  handed to the renderer are, first, one edge \<open>call k\<close> for each recorded call in that
  order, and after them only \<open>imports\<close> edges.
\<close>

theorem sequence_numbers:
  assumes "distinct (map abspath py_files)"
    and "analyze_project_seq abspath ast_parse recursion_limit py_files 0 = Inr (n, visitors)"
  shows "map fst visitors = map abspath py_files
     \<and> map fst (concat (map (\<lambda>kv. calls_with_sequence (snd kv)) visitors)) = [1..n]
     \<and> all_calls_with_sequence visitors
         = concat (map (\<lambda>kv. calls_with_sequence (snd kv)) visitors)
     \<and> (\<forall>g. create_execution_diagram_seq abspath find_spec visitors = Inr g \<longrightarrow>
          (\<exists>es. edges g
                 = map (\<lambda>(seq_num, caller_file, callee_file).
                          \<lparr>tail_name = caller_file, head_name = callee_file,
                           label = ''call '' @ str seq_num, color = ''black''\<rparr>)
                       (all_calls_with_sequence visitors) @ es
               \<and> (\<forall>e \<in> set es. label e = ''imports'')))"
proof -
  from assms(2) obtain ftf where
    l: "analyze_loop_seq abspath ast_parse recursion_limit ftf py_files (0, []) = Inr (n, visitors)"
    by (auto simp: analyze_project_seq_def split: sum.splits)
  from analyze_loop_seq_stamps [OF l assms(1), of 0] have
    keys: "map fst visitors = map abspath py_files"
    and stamps: "map fst (concat (map (\<lambda>kv. calls_with_sequence (snd kv)) visitors)) = [1..n]"
    by simp_all
  have sorted: "all_calls_with_sequence visitors
         = concat (map (\<lambda>kv. calls_with_sequence (snd kv)) visitors)"
    unfolding all_calls_with_sequence_def
    by (rule sort_key_id_if_sorted) (simp add: stamps)
  have se: "seq_edge = (\<lambda>(seq_num, caller_file, callee_file).
                          \<lparr>tail_name = caller_file, head_name = callee_file,
                           label = ''call '' @ str seq_num, color = ''black''\<rparr>)"
    by (auto simp: seq_edge_def fun_eq_iff)
  have "\<exists>es. edges g = map seq_edge (all_calls_with_sequence visitors) @ es
               \<and> (\<forall>e \<in> set es. label e = ''imports'')"
    if "create_execution_diagram_seq abspath find_spec visitors = Inr g" for g
    using create_execution_diagram_seq_edges [OF assms(2) that] by blast
  with keys stamps sorted show ?thesis unfolding se by blast
qed


text \<open>
  The theorem at the run over \<open>worker.py\<close>, \<open>helper.py\<close>, \<open>twice.py\<close> and
  \<open>caller.py\<close>, which records four calls.
\<close>

theorem sequence_numbers_witness:
  "distinct (map example_abspath [''worker.py'', ''helper.py'', ''twice.py'', ''caller.py''])
   \<and> (\<exists>visitors.
        analyze_project_seq example_abspath example_parse 1000
          [''worker.py'', ''helper.py'', ''twice.py'', ''caller.py''] 0 = Inr (4, visitors)
        \<and> map fst visitors = [''/w/worker.py'', ''/w/helper.py'', ''/w/twice.py'', ''/w/caller.py'']
        \<and> map fst (concat (map (\<lambda>kv. calls_with_sequence (snd kv)) visitors)) = [1, 2, 3, 4]
        \<and> all_calls_with_sequence visitors
            = concat (map (\<lambda>kv. calls_with_sequence (snd kv)) visitors))"
proof -
  let ?files = "[''worker.py'', ''helper.py'', ''twice.py'', ''caller.py'']"
  have d: "distinct (map example_abspath ?files)" by (simp add: example_abspath_def)
  have "(case analyze_project_seq example_abspath example_parse 1000 ?files 0 of
           Inl e \<Rightarrow> False | Inr (n, vs) \<Rightarrow> n = 4)"
    by code_simp
  then obtain visitors where
    v: "analyze_project_seq example_abspath example_parse 1000 ?files 0 = Inr (4, visitors)"
    by (auto split: sum.splits)
  have u: "[1..4] = [1, 2, 3, (4::int)]" by code_simp
  from sequence_numbers [OF d v, of example_find_spec] d v u show ?thesis
    by (auto simp: example_abspath_def)
qed


section \<open>Call edges between two files\<close>

lemma distinct_filter_eq_le1: "distinct xs \<Longrightarrow> length (filter (\<lambda>x. x = y) xs) \<le> Suc 0"
  by (induction xs) (auto simp: filter_empty_conv)

lemma distinct_concat_calls:
  assumes "distinct (map fst vs)"
    and "\<And>k v. (k, v) \<in> set vs \<Longrightarrow> distinct (function_calls v) \<and> (\<forall>c \<in> set (function_calls v). fst c = k)"
  shows "distinct (concat (map (\<lambda>kv. function_calls (snd kv)) vs))"
  using assms
proof (induction vs)
  case Nil
  then show ?case by simp
next
  case (Cons kv vs)
  have d: "distinct (function_calls (snd kv))"
    and own: "\<forall>c \<in> set (function_calls (snd kv)). fst c = fst kv"
    using Cons.prems(2) [of "fst kv" "snd kv"] by simp_all
  have rest: "distinct (concat (map (\<lambda>kv. function_calls (snd kv)) vs))"
  proof (rule Cons.IH)
    show "distinct (map fst vs)" using Cons.prems(1) by simp
  next
    fix k v assume "(k, v) \<in> set vs"
    then show "distinct (function_calls v) \<and> (\<forall>c \<in> set (function_calls v). fst c = k)"
      using Cons.prems(2) [of k v] by simp
  qed
  have other: "fst c \<noteq> fst kv"
    if "c \<in> set (concat (map (\<lambda>kv. function_calls (snd kv)) vs))" for c
  proof -
    from that obtain k v where kv: "(k, v) \<in> set vs" and c: "c \<in> set (function_calls v)"
      by auto
    from Cons.prems(2) [of k v] kv c have ck: "fst c = k" by simp
    have "fst (k, v) \<in> fst ` set vs" using kv by (rule imageI)
    then have kin: "fst c \<in> fst ` set vs" using ck by simp
    from Cons.prems(1) have notin: "fst kv \<notin> fst ` set vs" by simp
    show ?thesis
    proof
      assume "fst c = fst kv"
      with kin have "fst kv \<in> fst ` set vs" by simp
      with notin show False by simp
    qed
  qed
  show ?case using d rest own other by auto
qed

lemma analyze_project_calls_distinct:
  assumes "analyze_project abspath ast_parse recursion_limit py_files = Inr visitors"
  shows "distinct (concat (map (\<lambda>kv. function_calls (snd kv)) visitors))"
proof -
  from assms obtain ftf where l: "analyze_loop abspath ast_parse recursion_limit ftf py_files [] = Inr visitors"
    by (auto simp: analyze_project_def split: sum.splits)
  have ok: "calls_ok k ftf (function_calls v)" if "(k, v) \<in> set visitors" for k v
  proof (rule analyze_loop_invariant [OF l _ _ that])
    fix p w assume "parse_file abspath ast_parse recursion_limit p ftf = Inr w"
    then show "calls_ok (abspath p) ftf (function_calls w)"
      using parse_file_calls_ok by blast
  qed simp
  have "distinct (map fst visitors)" using analyze_loop_keys [OF l] by simp
  then show ?thesis
    by (rule distinct_concat_calls) (use ok in \<open>auto simp: calls_ok_def\<close>)
qed

lemma filter_call_edge:
  "filter (\<lambda>e. tail_name e = a \<and> head_name e = b \<and> label e = ''calls'') (map call_edge cs)
   = map call_edge (filter (\<lambda>c. c = (a, b)) cs)"
  by (induction cs) (auto simp: call_edge_def)

lemma filter_seq_edge:
  "filter (\<lambda>e. tail_name e = a \<and> head_name e = b \<and> color e = ''black'') (map seq_edge cs)
   = map seq_edge (filter (\<lambda>c. snd c = (a, b)) cs)"
  by (induction cs) (auto simp: seq_edge_def prod_eq_iff)

lemma filter_imports_calls:
  "\<forall>e \<in> set es. label e = ''imports'' \<and> color e = ''blue'' \<Longrightarrow>
   filter (\<lambda>e. tail_name e = a \<and> head_name e = b \<and> label e = ''calls'') es = []
   \<and> filter (\<lambda>e. tail_name e = a \<and> head_name e = b \<and> color e = ''black'') es = []"
  by (auto simp: filter_empty_conv)


text \<open>
  C5, as the code has it: the graph of \<open>Execution_diagram.py\<close> has at most one
  \<open>calls\<close> edge from a caller file to a callee file, however many call sites there are
  (\<open>function_calls\<close> is a set, and each visitor records only calls of its own file);
  the graph of \<open>Execution_diagram_iteration.py\<close> has one call edge (the black ones) for
  every recorded call from the caller file to the callee file, that is one per call site.
\<close>

theorem call_edges_per_pair:
  "(analyze_project abspath ast_parse recursion_limit py_files = Inr visitors \<longrightarrow>
    create_execution_diagram abspath find_spec visitors = Inr g \<longrightarrow>
      length (filter (\<lambda>e. tail_name e = caller_file \<and> head_name e = callee_file
                          \<and> label e = ''calls'') (edges g)) \<le> 1)
   \<and> (analyze_project_seq abspath ast_parse recursion_limit py_files c = Inr (c', visitors') \<longrightarrow>
      create_execution_diagram_seq abspath find_spec visitors' = Inr g' \<longrightarrow>
      length (filter (\<lambda>e. tail_name e = caller_file \<and> head_name e = callee_file
                          \<and> color e = ''black'') (edges g'))
      = length (filter (\<lambda>(seq_num, caller, callee). caller = caller_file \<and> callee = callee_file)
                  (concat (map (\<lambda>kv. calls_with_sequence (snd kv)) visitors'))))"
proof (intro conjI impI)
  assume a: "analyze_project abspath ast_parse recursion_limit py_files = Inr visitors"
    and g: "create_execution_diagram abspath find_spec visitors = Inr g"
  let ?dot = "foldl (\<lambda>d kv. dot_node (fst kv) d) \<lparr>nodes = [], edges = []\<rparr> visitors"
  let ?ok = "\<lambda>c. snd c \<noteq> [] \<and> in_visitors (snd c) visitors"
  let ?calls = "concat (map (\<lambda>kv. function_calls (snd kv)) visitors)"
  from g obtain d1 where
    i: "import_edges abspath find_spec visitors visitors ?dot = Inr d1"
    and g1: "g = call_edges visitors d1"
    by (auto simp: create_execution_diagram_def Let_def split: sum.splits)
  from import_edges_edges [OF i] obtain es where
    es: "edges d1 = es" "\<forall>e \<in> set es. label e = ''imports'' \<and> color e = ''blue''"
    by (auto simp: dot_node_edges)
  have eg: "edges g = es @ map call_edge (filter ?ok ?calls)"
    by (simp add: g1 call_edges_def call_edges_edges es(1))
  have "distinct (filter ?ok ?calls)"
    using analyze_project_calls_distinct [OF a] by simp
  then have "length (filter (\<lambda>c. c = (caller_file, callee_file)) (filter ?ok ?calls)) \<le> Suc 0"
    by (rule distinct_filter_eq_le1)
  then show "length (filter (\<lambda>e. tail_name e = caller_file \<and> head_name e = callee_file
                          \<and> label e = ''calls'') (edges g)) \<le> 1"
    using filter_imports_calls [OF es(2), of caller_file callee_file]
    by (simp add: eg filter_call_edge del: filter_filter)
next
  assume a: "analyze_project_seq abspath ast_parse recursion_limit py_files c = Inr (c', visitors')"
    and g: "create_execution_diagram_seq abspath find_spec visitors' = Inr g'"
  let ?calls = "concat (map (\<lambda>kv. calls_with_sequence (snd kv)) visitors')"
  from create_execution_diagram_seq_edges [OF a g] obtain es where
    eg: "edges g' = map seq_edge (all_calls_with_sequence visitors') @ es"
    and es: "\<forall>e \<in> set es. label e = ''imports'' \<and> color e = ''blue''"
    by blast
  have "length (filter (\<lambda>e. tail_name e = caller_file \<and> head_name e = callee_file
                          \<and> color e = ''black'') (edges g'))
        = length (filter (\<lambda>c. snd c = (caller_file, callee_file)) (all_calls_with_sequence visitors'))"
    using filter_imports_calls [OF es, of caller_file callee_file]
    by (simp add: eg filter_seq_edge)
  also have "\<dots> = length (filter (\<lambda>c. snd c = (caller_file, callee_file)) ?calls)"
    by (simp add: all_calls_with_sequence_def filter_sort)
  also have "(\<lambda>c. snd c = (caller_file, callee_file))
             = (\<lambda>(seq_num, caller, callee). caller = caller_file \<and> callee = callee_file)"
    by (auto simp: fun_eq_iff)
  finally show "length (filter (\<lambda>e. tail_name e = caller_file \<and> head_name e = callee_file
                          \<and> color e = ''black'') (edges g'))
      = length (filter (\<lambda>(seq_num, caller, callee). caller = caller_file \<and> callee = callee_file)
                  ?calls)" .
qed


text \<open>The theorem at the runs of both scripts over \<open>helper.py\<close> and \<open>twice.py\<close>.\<close>

theorem call_edges_per_pair_witness:
  "\<exists>visitors g c' visitors' g'.
     analyze_project example_abspath example_parse 1000 [''helper.py'', ''twice.py''] = Inr visitors
     \<and> create_execution_diagram example_abspath example_find_spec visitors = Inr g
     \<and> length (filter (\<lambda>e. tail_name e = ''/w/twice.py'' \<and> head_name e = ''/w/helper.py''
                          \<and> label e = ''calls'') (edges g)) \<le> 1
     \<and> analyze_project_seq example_abspath example_parse 1000 [''helper.py'', ''twice.py''] 0
         = Inr (c', visitors')
     \<and> create_execution_diagram_seq example_abspath example_find_spec visitors' = Inr g'
     \<and> length (filter (\<lambda>e. tail_name e = ''/w/twice.py'' \<and> head_name e = ''/w/helper.py''
                          \<and> color e = ''black'') (edges g'))
       = length (filter (\<lambda>(seq_num, caller, callee).
                           caller = ''/w/twice.py'' \<and> callee = ''/w/helper.py'')
                   (concat (map (\<lambda>kv. calls_with_sequence (snd kv)) visitors')))"
proof -
  let ?files = "[''helper.py'', ''twice.py'']"
  let ?A = "analyze_project example_abspath example_parse 1000 ?files"
  let ?B = "analyze_project_seq example_abspath example_parse 1000 ?files 0"
  have "\<not> isl ?A" by code_simp
  then have 1: "?A = Inr (projr ?A)" by simp
  have "\<not> isl (create_execution_diagram example_abspath example_find_spec (projr ?A))"
    by code_simp
  then have 2: "create_execution_diagram example_abspath example_find_spec (projr ?A)
                = Inr (projr (create_execution_diagram example_abspath example_find_spec
                                (projr ?A)))"
    by simp
  have "\<not> isl ?B" by code_simp
  then have 3: "?B = Inr (fst (projr ?B), snd (projr ?B))" by simp
  have "\<not> isl (create_execution_diagram_seq example_abspath example_find_spec
                  (snd (projr ?B)))"
    by code_simp
  then have 4: "create_execution_diagram_seq example_abspath example_find_spec (snd (projr ?B))
                = Inr (projr (create_execution_diagram_seq example_abspath example_find_spec
                                (snd (projr ?B))))"
    by simp
  from call_edges_per_pair [where abspath = example_abspath and ast_parse = example_parse
      and recursion_limit = 1000
      and py_files = ?files and visitors = "projr ?A" and find_spec = example_find_spec
      and g = "projr (create_execution_diagram example_abspath example_find_spec (projr ?A))"
      and caller_file = "''/w/twice.py''" and callee_file = "''/w/helper.py''" and c = 0
      and c' = "fst (projr ?B)" and visitors' = "snd (projr ?B)"
      and g' = "projr (create_execution_diagram_seq example_abspath example_find_spec
                         (snd (projr ?B)))"] 1 2 3 4
  show ?thesis by blast
qed


text \<open>
  C5 as stated fails for the sequenced script: \<open>twice.py\<close> calls \<open>helper\<close> of
  \<open>helper.py\<close> at two call sites, and the graph has two call edges from \<open>twice.py\<close> to
  \<open>helper.py\<close>.
\<close>

theorem call_edges_per_pair_counterexample:
  "main_seq example_abspath example_parse example_find_spec 1000 [''helper.py'', ''twice.py'']
   = Inr \<lparr>nodes = [''/w/helper.py'', ''/w/twice.py''],
          edges = [\<lparr>tail_name = ''/w/twice.py'', head_name = ''/w/helper.py'',
                    label = ''call 1'', color = ''black''\<rparr>,
                   \<lparr>tail_name = ''/w/twice.py'', head_name = ''/w/helper.py'',
                    label = ''call 2'', color = ''black''\<rparr>]\<rparr>"
  by code_simp


section \<open>Bare names of methods\<close>

text \<open>
  C3 at \<open>worker.py\<close>: \<open>ast.walk\<close> yields the method \<open>run\<close> in the body of \<open>Worker\<close>
  like any other \<open>FunctionDef\<close>, so the table holds the bare name \<open>run\<close> besides
  \<open>Worker\<close> and \<open>Worker.run\<close>.
\<close>

theorem method_under_bare_name:
  "(case build_function_to_file_map example_abspath example_parse [''worker.py''] of
      Inl e \<Rightarrow> []
    | Inr ftf \<Rightarrow> [ftf ''Worker'', ftf ''Worker.run'', ftf ''run''])
   = [Some ''/w/worker.py'', Some ''/w/worker.py'', Some ''/w/worker.py'']"
  by code_simp


section \<open>A call on a constructed receiver\<close>

















end
